theory Spec2Isabelle
  imports Complex_Main
begin

section \<open>Tight Margins carousel builder: the 14-template variant of \<open>src/src/App.jsx\<close>\<close>

text \<open>
  The file \<open>App.jsx\<close> holds two variants of the application one after the other; this
  development embeds the first one (lines 1 to 2729), which registers 14 templates.

  Conventions of the embedding.
  \<^item> A JavaScript string is a \<open>string\<close>; each \<open>char\<close> stands for one UTF-16 code unit
    in the range U+0000 to U+00FF. Code units above U+00FF are outside the string type
    of this development.
  \<^item> A JavaScript number that holds a coordinate or a measured width is a \<open>real\<close>:
    the arithmetic of the layout code is read as exact arithmetic, rounding of IEEE
    doubles is not modelled. Array indices are \<open>int\<close>.
  \<^item> A thrown \<open>TypeError\<close> is the value \<open>Inl TypeError\<close>.
\<close>

datatype js_error = TypeError

subsection \<open>String primitives of the host language\<close>

text \<open>\<open>String.prototype.split(sep)\<close> for a one-character separator: a string with
  \<open>k\<close> separators yields \<open>k + 1\<close> pieces, empty pieces included.\<close>

fun split_on :: "char \<Rightarrow> string \<Rightarrow> string list" where
  "split_on c [] = [[]]"
| "split_on c (x # xs) =
     (if x = c then [] # split_on c xs
      else (x # hd (split_on c xs)) # tl (split_on c xs))"

text \<open>White space and line terminators removed by \<open>String.prototype.trim\<close>, among the
  code units up to U+00FF: TAB, LF, VT, FF, CR, SPACE, NBSP.\<close>

definition is_ws :: "char \<Rightarrow> bool" where
  "is_ws c = (c \<in> set [CHR 0x09, CHR 0x0A, CHR 0x0B, CHR 0x0C, CHR 0x0D, CHR 0x20, CHR 0xA0])"

definition trim :: "string \<Rightarrow> string" where
  "trim s = rev (dropWhile is_ws (rev (dropWhile is_ws s)))"

subsection \<open>Slides and the editor's slide-list operations\<close>

text \<open>A slide object. The property \<open>locked\<close> is absent on slides made by \<open>addSlide\<close>
  and on the middle slide of the custom skeleton (\<open>None\<close>); an absent or false flag is
  falsy. The property \<open>note\<close> is the field \<open>slide_note\<close>; it is absent (\<open>None\<close>) only
  on an object that \<open>changeTemplate\<close> makes where there was no slide.\<close>

record slide =
  template :: string
  locked :: "bool option"
  slide_note :: "string option"
  data :: "string \<rightharpoonup> string"

definition is_locked :: "slide \<Rightarrow> bool" where
  "is_locked s = (locked s = Some True)"

text \<open>\<open>SEQUENCES\<close>: the five blueprints, each a list of (template, locked, note). The
  notes of the source use the dash U+2014, written here as a hyphen.\<close>

definition SEQUENCES :: "(string \<times> (string \<times> bool option \<times> string) list) list" where
  "SEQUENCES =
   [(''argument'',
      [(''cover'', Some True, ''Hook - provocative title''),
       (''single'', None, ''Setup - establish the context''),
       (''single'', None, ''Complication - introduce the problem''),
       (''framework'', None, ''Model - present the framework''),
       (''numbered_list'', None, ''Breakdown - key components''),
       (''comparison'', None, ''Contrast - the old vs new way''),
       (''quote'', None, ''Validate - expert backing''),
       (''punchline'', None, ''Payoff - the key insight''),
       (''data'', None, ''Proof - validating data''),
       (''cta'', Some True, ''Exit - subscribe'')]),
    (''hottake'',
      [(''cover'', Some True, ''Hook - bold claim''),
       (''data'', None, ''Shock - the credible number''),
       (''single'', None, ''Context - why it matters''),
       (''checklist'', None, ''Reality check - do vs don't''),
       (''punchline'', None, ''Resolution - the real insight''),
       (''quote'', None, ''Close - a voice that agrees''),
       (''cta'', Some True, ''Exit - subscribe'')]),
    (''casestudy'',
      [(''cover'', Some True, ''Hook - the decision''),
       (''single'', None, ''Situation - what was at stake''),
       (''data'', None, ''Scale - tangible stakes''),
       (''section_divider'', None, ''Pivot - entering analysis''),
       (''two_up'', None, ''Options - two choices compared''),
       (''comparison'', None, ''Tradeoffs - side by side''),
       (''single'', None, ''Decision - what was chosen''),
       (''punchline'', None, ''Outcome - what happened''),
       (''quote'', None, ''Reflection - the lesson''),
       (''cta'', Some True, ''Exit - subscribe'')]),
    (''listicle'',
      [(''cover'', Some True, ''Hook - the list promise''),
       (''single'', None, ''Setup - why this list matters''),
       (''numbered_list'', None, ''List part 1 - first items''),
       (''numbered_list'', None, ''List part 2 - more items''),
       (''three_up'', None, ''Summary - three takeaways''),
       (''data'', None, ''Anchor - a proof point''),
       (''punchline'', None, ''Close - the one-liner''),
       (''cta'', Some True, ''Exit - subscribe'')]),
    (''playbook'',
      [(''cover'', Some True, ''Hook - the playbook title''),
       (''single'', None, ''Overview - what this covers''),
       (''section_divider'', None, ''Part 1 - first section''),
       (''numbered_list'', None, ''Steps - the process''),
       (''two_up'', None, ''Key contrast - a critical choice''),
       (''section_divider'', None, ''Part 2 - second section''),
       (''checklist'', None, ''Standards - do vs don't''),
       (''three_up'', None, ''Principles - three pillars''),
       (''quote'', None, ''Authority - expert voice''),
       (''data'', None, ''Results - proof it works''),
       (''punchline'', None, ''Payoff - the closing insight''),
       (''cta'', Some True, ''Exit - subscribe'')])]"

text \<open>\<open>initFromSequence(seqKey)\<close>: \<open>locked: s.locked || false\<close> turns an absent flag
  into \<open>false\<close>; an unknown key makes \<open>seq.slides\<close> throw.\<close>

definition initFromSequence :: "string \<Rightarrow> js_error + slide list" where
  "initFromSequence seqKey =
     (case map_of SEQUENCES seqKey of
        None \<Rightarrow> Inl TypeError
      | Some sl \<Rightarrow>
          Inr (map (\<lambda>(t, l, n).
                 \<lparr>template = t,
                  locked = Some (case l of Some b \<Rightarrow> b | None \<Rightarrow> False),
                  slide_note = Some n, data = Map.empty\<rparr>) sl))"

definition initCustom :: "slide list" where
  "initCustom =
     [\<lparr>template = ''cover'', locked = Some True,
       slide_note = Some ''Cover (always first)'', data = Map.empty\<rparr>,
      \<lparr>template = ''single'', locked = None,
       slide_note = Some ''Your content'', data = Map.empty\<rparr>,
      \<lparr>template = ''cta'', locked = Some True,
       slide_note = Some ''CTA (always last)'', data = Map.empty\<rparr>]"

text \<open>\<open>slides[idx]\<close>: \<open>undefined\<close> (here \<open>None\<close>) outside the array.\<close>

definition slide_at :: "slide list \<Rightarrow> int \<Rightarrow> slide option" where
  "slide_at slides idx =
     (if 0 \<le> idx \<and> idx < int (length slides) then Some (slides ! nat idx) else None)"

text \<open>The array that \<open>changeTemplate\<close> hands to \<open>setSlides\<close>. An assignment
  \<open>next[idx] = obj\<close> past the end of an array lengthens it and leaves holes before
  \<open>idx\<close> (\<open>None\<close> among the elements); for an \<open>idx\<close> that is no array index (negative, or
  above \<open>2^32 - 2\<close>) it adds an own property beside the elements.\<close>

record slide_array =
  elements :: "slide option list"
  others :: "(int \<times> slide) list"

text \<open>\<open>a[j]\<close>: a hole and a missing property both read as \<open>undefined\<close> (\<open>None\<close>).\<close>

definition array_get :: "slide_array \<Rightarrow> int \<Rightarrow> slide option" where
  "array_get a j =
     (if 0 \<le> j \<and> j < int (length (elements a)) then elements a ! nat j
      else map_of (others a) j)"

text \<open>The array as a list of slides, when it has no hole and no other property.\<close>

definition dense :: "slide_array \<Rightarrow> slide list option" where
  "dense a =
     (if others a = [] \<and> None \<notin> set (elements a) then Some (map the (elements a))
      else None)"

text \<open>\<open>changeTemplate(idx, newTemplate)\<close>:
  \<open>const next = [...prev]; next[idx] = { ...next[idx], template: newTemplate, data: {} };
  return next\<close>. There is no guard: where \<open>next[idx]\<close> is \<open>undefined\<close> the spread
  contributes nothing and the new object has the two properties \<open>template\<close> and \<open>data\<close>
  only.\<close>

definition changeTemplate :: "int \<Rightarrow> string \<Rightarrow> slide list \<Rightarrow> slide_array" where
  "changeTemplate idx newTemplate prev =
     (let next = map Some prev;
          obj = (case slide_at prev idx of
                   None \<Rightarrow> \<lparr>template = newTemplate, locked = None, slide_note = None,
                             data = Map.empty\<rparr>
                 | Some s \<Rightarrow> s\<lparr>template := newTemplate, data := Map.empty\<rparr>)
      in if 0 \<le> idx \<and> idx < int (length prev)
         then \<lparr>elements = next[nat idx := Some obj], others = []\<rparr>
         else if int (length prev) \<le> idx \<and> idx < 4294967295
         then \<lparr>elements = next @ replicate (nat idx - length prev) None @ [Some obj],
               others = []\<rparr>
         else \<lparr>elements = next, others = [(idx, obj)]\<rparr>)"

text \<open>\<open>Array.prototype.splice(start, 0, item)\<close>: a negative start counts from the end,
  and the start is clamped to the array.\<close>

definition splice_insert :: "int \<Rightarrow> 'a \<Rightarrow> 'a list \<Rightarrow> 'a list" where
  "splice_insert start item xs =
     (let len = int (length xs);
          k = (if start < 0 then max (len + start) 0 else min start len)
      in take (nat k) xs @ [item] @ drop (nat k) xs)"

text \<open>\<open>addSlide(afterIdx)\<close>: guarded by \<open>slides.length >= 12\<close> only.\<close>

definition addSlide :: "int \<Rightarrow> slide list \<Rightarrow> slide list" where
  "addSlide afterIdx slides =
     (if length slides \<ge> 12 then slides
      else splice_insert (afterIdx + 1)
             \<lparr>template = ''single'', locked = None, slide_note = Some '''',
               data = Map.empty\<rparr>
             slides)"

text \<open>\<open>removeSlide(idx)\<close>: \<open>slides[idx].locked\<close> throws when \<open>slides[idx]\<close> is
  undefined; past that guard \<open>idx\<close> is an index of the array and \<open>splice(idx, 1)\<close>
  removes that one element.\<close>

definition removeSlide :: "int \<Rightarrow> slide list \<Rightarrow> js_error + slide list" where
  "removeSlide idx slides =
     (if length slides \<le> 6 then Inr slides
      else case slide_at slides idx of
        None \<Rightarrow> Inl TypeError
      | Some s \<Rightarrow>
          if is_locked s then Inr slides
          else Inr (take (nat idx) slides @ drop (nat idx + 1) slides))"

text \<open>\<open>moveSlide(idx, dir)\<close>: the swap
  \<open>[next[idx], next[targetIdx]] = [next[targetIdx], next[idx]]\<close> happens only when the
  target is strictly inside the list and slide \<open>idx\<close> exists and is not locked.\<close>

definition moveSlide :: "int \<Rightarrow> int \<Rightarrow> slide list \<Rightarrow> js_error + slide list" where
  "moveSlide idx dir slides =
     (let targetIdx = idx + dir in
      if targetIdx \<le> 0 \<or> targetIdx \<ge> int (length slides) - 1 then Inr slides
      else case slide_at slides idx of
        None \<Rightarrow> Inl TypeError
      | Some s \<Rightarrow>
          if is_locked s then Inr slides
          else Inr (slides[nat idx := slides ! nat targetIdx, nat targetIdx := s]))"

text \<open>The export button of the editor:
  \<open>disabled={exporting || slides.length < 6 || slides.length > 12}\<close> with
  \<open>onClick={handleExport}\<close>. A disabled button fires no click handler, so a request made
  through it reaches \<open>handleExport\<close> (and from there \<open>exportPDF(slides)\<close>) only when the
  button is enabled. \<open>handleExport\<close> and \<open>exportPDF\<close> check nothing themselves.\<close>

definition export_disabled :: "bool \<Rightarrow> slide list \<Rightarrow> bool" where
  "export_disabled exporting slides =
     (exporting \<or> length slides < 6 \<or> length slides > 12)"

datatype export_request = Rejected | Accepted "slide list"

definition request_export :: "bool \<Rightarrow> slide list \<Rightarrow> export_request" where
  "request_export exporting slides =
     (if export_disabled exporting slides then Rejected else Accepted slides)"

text \<open>The calls the editor issues. The template selector and the buttons for moving,
  inserting and removing are rendered only for a selected slide that is not locked; the
  selector offers every template except \<open>cover\<close> and \<open>cta\<close>; the button at the foot of
  the slide list calls \<open>addSlide(slides.length - 2)\<close>. \<open>removeSlide\<close> and \<open>moveSlide\<close>
  are taken with any arguments, as their own guards suffice.\<close>

inductive editor_reach :: "slide list \<Rightarrow> bool" where
  from_sequence: "initFromSequence k = Inr s \<Longrightarrow> editor_reach s"
| from_custom: "editor_reach initCustom"
| add_foot: "editor_reach s \<Longrightarrow> editor_reach (addSlide (int (length s) - 2) s)"
| add_after: "editor_reach s \<Longrightarrow> slide_at s i = Some sl \<Longrightarrow> \<not> is_locked sl
     \<Longrightarrow> editor_reach (addSlide i s)"
| remove: "editor_reach s \<Longrightarrow> removeSlide i s = Inr s' \<Longrightarrow> editor_reach s'"
| move: "editor_reach s \<Longrightarrow> moveSlide i d s = Inr s' \<Longrightarrow> editor_reach s'"
| change: "editor_reach s \<Longrightarrow> slide_at s i = Some sl \<Longrightarrow> \<not> is_locked sl
     \<Longrightarrow> t \<noteq> ''cover'' \<Longrightarrow> t \<noteq> ''cta''
     \<Longrightarrow> dense (changeTemplate i t s) = Some s' \<Longrightarrow> editor_reach s'"

text \<open>The invariant carried by the editor: at least two slides, a locked cover first
  and a locked cta last.\<close>

definition ends_ok :: "slide list \<Rightarrow> bool" where
  "ends_ok s = (2 \<le> length s \<and>
     template (hd s) = ''cover'' \<and> is_locked (hd s) \<and>
     template (last s) = ''cta'' \<and> is_locked (last s))"

subsection \<open>Design-system constants (the object \<open>C\<close>)\<close>

definition C_paper :: string where "C_paper = ''#F0EDEA''"
definition C_ink :: string where "C_ink = ''#2A2A2A''"
definition C_red :: string where "C_red = ''#C83232''"
definition C_dark :: string where "C_dark = ''#333333''"
definition C_grey :: string where "C_grey = ''#D0CCC8''"
definition C_callout :: string where "C_callout = ''#555555''"
definition C_slide :: real where "C_slide = 1080"
definition C_marginLine :: real where "C_marginLine = 144"
definition C_contentStart :: real where "C_contentStart = 176"
definition C_outerMargin :: real where "C_outerMargin = 64"
definition C_contentEnd :: real where "C_contentEnd = 1016"
definition C_coverBandL :: real where "C_coverBandL = 280"
definition C_coverBandR :: real where "C_coverBandR = 800"
definition C_coverChannelW :: real where "C_coverChannelW = 520"
definition C_ruledInterval :: real where "C_ruledInterval = 32"
definition C_ruledStart :: real where "C_ruledStart = 64"

lemmas C_defs = C_paper_def C_ink_def C_red_def C_dark_def C_grey_def C_callout_def
  C_slide_def C_marginLine_def C_contentStart_def C_outerMargin_def C_contentEnd_def
  C_coverBandL_def C_coverBandR_def C_coverChannelW_def C_ruledInterval_def C_ruledStart_def

subsection \<open>The 2D drawing context\<close>

text \<open>The attributes of the drawing state that the application sets; \<open>save()\<close> pushes
  them and \<open>restore()\<close> pops them. \<open>letterSpacing\<close> is \<open>None\<close> in a browser whose context
  has no such property (the source tests \<open>"letterSpacing" in ctx\<close>). Reading \<open>ctx.font\<close>
  or \<open>ctx.fillStyle\<close> gives back the string that was assigned.\<close>

record dstate =
  fillStyle :: string
  strokeStyle :: string
  font :: string
  globalAlpha :: real
  lineWidth :: real
  textAlign :: string
  letterSpacing :: "string option"
  lineDash :: "real list"
  lineCap :: string
  lineJoin :: string

datatype path_cmd =
    MoveTo real real
  | LineTo real real
  | Arc real real real real real
  | ClosePath

text \<open>What a painting call puts on the surface is determined by its arguments and by the
  state attributes that apply to it: colour and alpha for a fill; colour, width, alpha,
  dash, cap and join for a stroke; colour, font, alpha, alignment and letter spacing for
  text.\<close>

record stroke_style =
  s_color :: string
  s_width :: real
  s_alpha :: real
  s_dash :: "real list"
  s_cap :: string
  s_join :: string

record text_style =
  t_color :: string
  t_font :: string
  t_alpha :: real
  t_align :: string
  t_spacing :: "string option"

datatype paint =
    Fill_Rect string real real real real real
  | Stroke_Rect stroke_style real real real real
  | Fill_Text text_style string real real
  | Stroke_Path stroke_style "path_cmd list"
  | Fill_Path string real "path_cmd list"
  | Clear_Rect real real real real
  | Reset_Bitmap real real

text \<open>A canvas with its context: the current drawing state, the stack of saved states,
  the current path, and the painting calls made on the surface so far, oldest first.\<close>

record canvas =
  cur :: dstate
  stack :: "dstate list"
  path :: "path_cmd list"
  painted :: "paint list"

definition stroke_of :: "dstate \<Rightarrow> stroke_style" where
  "stroke_of d = \<lparr>s_color = strokeStyle d, s_width = lineWidth d, s_alpha = globalAlpha d,
     s_dash = lineDash d, s_cap = lineCap d, s_join = lineJoin d\<rparr>"

definition text_of :: "dstate \<Rightarrow> text_style" where
  "text_of d = \<lparr>t_color = fillStyle d, t_font = font d, t_alpha = globalAlpha d,
     t_align = textAlign d, t_spacing = letterSpacing d\<rparr>"

definition put :: "paint \<Rightarrow> canvas \<Rightarrow> canvas" where
  "put p c = c\<lparr>painted := painted c @ [p]\<rparr>"

definition set_fillStyle :: "string \<Rightarrow> canvas \<Rightarrow> canvas" where
  "set_fillStyle v c = c\<lparr>cur := (cur c)\<lparr>fillStyle := v\<rparr>\<rparr>"

definition set_strokeStyle :: "string \<Rightarrow> canvas \<Rightarrow> canvas" where
  "set_strokeStyle v c = c\<lparr>cur := (cur c)\<lparr>strokeStyle := v\<rparr>\<rparr>"

definition set_font :: "string \<Rightarrow> canvas \<Rightarrow> canvas" where
  "set_font v c = c\<lparr>cur := (cur c)\<lparr>font := v\<rparr>\<rparr>"

definition set_globalAlpha :: "real \<Rightarrow> canvas \<Rightarrow> canvas" where
  "set_globalAlpha v c = c\<lparr>cur := (cur c)\<lparr>globalAlpha := v\<rparr>\<rparr>"

definition set_lineWidth :: "real \<Rightarrow> canvas \<Rightarrow> canvas" where
  "set_lineWidth v c = c\<lparr>cur := (cur c)\<lparr>lineWidth := v\<rparr>\<rparr>"

definition set_textAlign :: "string \<Rightarrow> canvas \<Rightarrow> canvas" where
  "set_textAlign v c = c\<lparr>cur := (cur c)\<lparr>textAlign := v\<rparr>\<rparr>"

definition set_lineCap :: "string \<Rightarrow> canvas \<Rightarrow> canvas" where
  "set_lineCap v c = c\<lparr>cur := (cur c)\<lparr>lineCap := v\<rparr>\<rparr>"

definition set_lineJoin :: "string \<Rightarrow> canvas \<Rightarrow> canvas" where
  "set_lineJoin v c = c\<lparr>cur := (cur c)\<lparr>lineJoin := v\<rparr>\<rparr>"

definition setLineDash :: "real list \<Rightarrow> canvas \<Rightarrow> canvas" where
  "setLineDash v c = c\<lparr>cur := (cur c)\<lparr>lineDash := v\<rparr>\<rparr>"

text \<open>\<open>if ("letterSpacing" in ctx) ctx.letterSpacing = v\<close>\<close>

definition set_letterSpacing_if_supported :: "string \<Rightarrow> canvas \<Rightarrow> canvas" where
  "set_letterSpacing_if_supported v c =
     (case letterSpacing (cur c) of
        None \<Rightarrow> c
      | Some _ \<Rightarrow> c\<lparr>cur := (cur c)\<lparr>letterSpacing := Some v\<rparr>\<rparr>)"

definition save :: "canvas \<Rightarrow> canvas" where
  "save c = c\<lparr>stack := cur c # stack c\<rparr>"

text \<open>\<open>restore()\<close> on an empty stack does nothing.\<close>

definition restore :: "canvas \<Rightarrow> canvas" where
  "restore c = (case stack c of [] \<Rightarrow> c | d # ds \<Rightarrow> c\<lparr>cur := d, stack := ds\<rparr>)"

definition beginPath :: "canvas \<Rightarrow> canvas" where
  "beginPath c = c\<lparr>path := []\<rparr>"

definition moveTo :: "real \<Rightarrow> real \<Rightarrow> canvas \<Rightarrow> canvas" where
  "moveTo x y c = c\<lparr>path := path c @ [MoveTo x y]\<rparr>"

definition lineTo :: "real \<Rightarrow> real \<Rightarrow> canvas \<Rightarrow> canvas" where
  "lineTo x y c = c\<lparr>path := path c @ [LineTo x y]\<rparr>"

definition arc :: "real \<Rightarrow> real \<Rightarrow> real \<Rightarrow> real \<Rightarrow> real \<Rightarrow> canvas \<Rightarrow> canvas" where
  "arc x y r a0 a1 c = c\<lparr>path := path c @ [Arc x y r a0 a1]\<rparr>"

definition closePath :: "canvas \<Rightarrow> canvas" where
  "closePath c = c\<lparr>path := path c @ [ClosePath]\<rparr>"

definition stroke :: "canvas \<Rightarrow> canvas" where
  "stroke c = put (Stroke_Path (stroke_of (cur c)) (path c)) c"

definition fill :: "canvas \<Rightarrow> canvas" where
  "fill c = put (Fill_Path (fillStyle (cur c)) (globalAlpha (cur c)) (path c)) c"

definition fillRect :: "real \<Rightarrow> real \<Rightarrow> real \<Rightarrow> real \<Rightarrow> canvas \<Rightarrow> canvas" where
  "fillRect x y w h c = put (Fill_Rect (fillStyle (cur c)) (globalAlpha (cur c)) x y w h) c"

definition strokeRect :: "real \<Rightarrow> real \<Rightarrow> real \<Rightarrow> real \<Rightarrow> canvas \<Rightarrow> canvas" where
  "strokeRect x y w h c = put (Stroke_Rect (stroke_of (cur c)) x y w h) c"

definition fillText :: "string \<Rightarrow> real \<Rightarrow> real \<Rightarrow> canvas \<Rightarrow> canvas" where
  "fillText txt x y c = put (Fill_Text (text_of (cur c)) txt x y) c"

text \<open>\<open>ctx.measureText(s).width\<close>: the text-measurement capability \<open>M\<close> gives the width
  of a string in a font; the context supplies its current font.\<close>

definition measureText :: "(string \<Rightarrow> string \<Rightarrow> real) \<Rightarrow> canvas \<Rightarrow> string \<Rightarrow> real" where
  "measureText M c s = M (font (cur c)) s"

text \<open>A block of statements run one after the other.\<close>

definition exec :: "('s \<Rightarrow> 's) list \<Rightarrow> 's \<Rightarrow> 's" where
  "exec fs c = fold (\<lambda>f. f) fs c"

subsection \<open>Canvas drawing helpers\<close>

text \<open>The loop of \<open>drawRuledLines\<close>:
  \<open>for (let y = C.ruledStart; y <= C.slide; y += C.ruledInterval)\<close> runs for
  \<open>y = 64, 96, ..., 1056\<close>, that is 32 times.\<close>

definition drawRuledLines :: "canvas \<Rightarrow> canvas" where
  "drawRuledLines =
     exec ([save, set_strokeStyle C_grey, set_lineWidth 0.5, set_globalAlpha 0.35] @
           concat (map (\<lambda>k. [beginPath,
                               moveTo 0 (C_ruledStart + real k * C_ruledInterval),
                               lineTo C_slide (C_ruledStart + real k * C_ruledInterval),
                               stroke]) [0..<32]) @
           [restore])"

definition drawMarginLine :: "real \<Rightarrow> real \<Rightarrow> canvas \<Rightarrow> canvas" where
  "drawMarginLine x opacity =
     exec [save, set_strokeStyle C_red, set_lineWidth 2, set_globalAlpha opacity,
           beginPath, moveTo x 0, lineTo x C_slide, stroke, restore]"

subsection \<open>\<open>wrapText\<close>\<close>

text \<open>The inner loop over the words of a paragraph: \<open>line\<close> is the line being built and
  \<open>lines\<close> the lines pushed so far; \<open>m\<close> measures a string in the current font.\<close>

fun wrap_words :: "(string \<Rightarrow> real) \<Rightarrow> real \<Rightarrow> string list \<Rightarrow> string \<Rightarrow> string list
    \<Rightarrow> string \<times> string list" where
  "wrap_words m maxWidth [] line lines = (line, lines)"
| "wrap_words m maxWidth (word # ws) line lines =
     (let test = line @ word @ '' '' in
      if m test > maxWidth \<and> line \<noteq> ''''
      then wrap_words m maxWidth ws (word @ '' '') (lines @ [trim line])
      else wrap_words m maxWidth ws test lines)"

text \<open>The outer loop over the paragraphs.\<close>

fun wrap_paragraphs :: "(string \<Rightarrow> real) \<Rightarrow> real \<Rightarrow> string list \<Rightarrow> string list
    \<Rightarrow> string list" where
  "wrap_paragraphs m maxWidth [] lines = lines"
| "wrap_paragraphs m maxWidth (paragraph # ps) lines =
     (if trim paragraph = '''' then wrap_paragraphs m maxWidth ps (lines @ [''''])
      else case wrap_words m maxWidth (split_on CHR '' '' paragraph) '''' lines of
             (line, lines') \<Rightarrow> wrap_paragraphs m maxWidth ps (lines' @ [trim line]))"

text \<open>The array \<open>lines\<close> that \<open>wrapText\<close> (and, with the same code, \<open>drawTextWithEmphasis\<close>)
  builds from a non-empty text.\<close>

definition layout_lines :: "(string \<Rightarrow> real) \<Rightarrow> string \<Rightarrow> real \<Rightarrow> string list" where
  "layout_lines m text maxWidth = wrap_paragraphs m maxWidth (split_on CHR 0x0A text) []"

text \<open>\<open>lines.forEach((l, i) => { if (l !== "") ctx.fillText(l, x, y + i * lineHeight) })\<close>\<close>

definition draw_line :: "real \<Rightarrow> real \<Rightarrow> real \<Rightarrow> nat \<times> string \<Rightarrow> canvas \<Rightarrow> canvas" where
  "draw_line x y lineHeight il c =
     (case il of (i, l) \<Rightarrow>
        if l \<noteq> '''' then fillText l x (y + real i * lineHeight) c else c)"

text \<open>\<open>wrapText(ctx, text, x, y, maxWidth, lineHeight)\<close> returns the number of lines and
  leaves its drawing on the canvas. An undefined or empty text returns 0.\<close>

definition wrapText :: "(string \<Rightarrow> string \<Rightarrow> real) \<Rightarrow> string \<Rightarrow> real \<Rightarrow> real \<Rightarrow> real \<Rightarrow> real
    \<Rightarrow> canvas \<Rightarrow> nat \<times> canvas" where
  "wrapText M text x y maxWidth lineHeight c =
     (if text = '''' then (0, c)
      else let lines = layout_lines (measureText M c) text maxWidth
           in (length lines, fold (draw_line x y lineHeight) (enumerate 0 lines) c))"

subsection \<open>\<open>drawTextWithEmphasis\<close>\<close>

text \<open>\<open>String.prototype.toLowerCase\<close> on code units up to U+00FF: the letters A to Z
  and the letters U+00C0 to U+00DE except the multiplication sign U+00D7 move up by 32.\<close>

definition lower_char :: "char \<Rightarrow> char" where
  "lower_char c =
     (let n = (of_char c :: nat)
      in if (65 \<le> n \<and> n \<le> 90) \<or> (192 \<le> n \<and> n \<le> 222 \<and> n \<noteq> 215)
         then char_of (n + 32) else c)"

definition toLowerCase :: "string \<Rightarrow> string" where
  "toLowerCase s = map lower_char s"

fun starts_with :: "string \<Rightarrow> string \<Rightarrow> bool" where
  "starts_with s [] = True"
| "starts_with [] (p # ps) = False"
| "starts_with (x # xs) (p # ps) = (x = p \<and> starts_with xs ps)"

text \<open>\<open>s.includes(sub)\<close>\<close>

fun includes_str :: "string \<Rightarrow> string \<Rightarrow> bool" where
  "includes_str [] sub = (sub = [])"
| "includes_str (x # xs) sub = (starts_with (x # xs) sub \<or> includes_str xs sub)"

text \<open>The characters of the class \<open>[.,!?;:'"]\<close>.\<close>

definition is_punct :: "char \<Rightarrow> bool" where
  "is_punct c = (c \<in> set [CHR ''.'', CHR '','', CHR ''!'', CHR ''?'', CHR '';'', CHR '':'',
                        CHR 0x27, CHR 0x22])"

text \<open>\<open>w.toLowerCase().replace(/[.,!?;:'"]/g, "")\<close>: the global flag removes every
  occurrence.\<close>

definition clean_word :: "string \<Rightarrow> string" where
  "clean_word w = filter (\<lambda>c. \<not> is_punct c) (toLowerCase w)"

text \<open>\<open>emphWords.includes(clean)\<close>\<close>

definition isEmph :: "string list \<Rightarrow> string \<Rightarrow> bool" where
  "isEmph emphWords w = (clean_word w \<in> set emphWords)"

definition is_digit :: "char \<Rightarrow> bool" where
  "is_digit c = (48 \<le> (of_char c :: nat) \<and> (of_char c :: nat) \<le> 57)"

text \<open>\<open>origFont.replace(/\d00/, "700")\<close>: the leftmost digit followed by two zeros.\<close>

fun replace_d00 :: "string \<Rightarrow> string" where
  "replace_d00 (a # b # c # rest) =
     (if is_digit a \<and> b = CHR ''0'' \<and> c = CHR ''0'' then ''700'' @ rest
      else a # replace_d00 (b # c # rest))"
| "replace_d00 s = s"

text \<open>\<open>boldFont.includes("700") ? boldFont : "bold " + origFont\<close>\<close>

definition bold_font :: "string \<Rightarrow> string" where
  "bold_font origFont =
     (let boldFont = replace_d00 origFont
      in if includes_str boldFont ''700'' then boldFont else ''bold '' @ origFont)"

text \<open>The body of \<open>lineWords.forEach((w, wi) => ...)\<close>: the state is the cursor \<open>cx\<close> and
  the canvas; \<open>n\<close> is \<open>lineWords.length\<close>.\<close>

definition draw_word :: "(string \<Rightarrow> string \<Rightarrow> real) \<Rightarrow> string list \<Rightarrow> string \<Rightarrow> string \<Rightarrow> string
    \<Rightarrow> real \<Rightarrow> real \<Rightarrow> nat \<Rightarrow> nat \<times> string \<Rightarrow> real \<times> canvas \<Rightarrow> real \<times> canvas" where
  "draw_word M emphWords origFont origFill emphColor ly spW n iw st =
     (case iw of (wi, w) \<Rightarrow> case st of (cx, c) \<Rightarrow>
        let (cx1, c1) =
          (if isEmph emphWords w then
             let c' = exec [set_font (bold_font origFont), set_fillStyle C_ink,
                            fillText w cx ly] c;
                 ww = measureText M c' w
             in (cx + ww,
                 exec [save, set_strokeStyle emphColor, set_lineWidth 2, beginPath,
                       moveTo cx (ly + 4), lineTo (cx + ww) (ly + 4), stroke, restore,
                       set_font origFont, set_fillStyle origFill] c')
           else (cx + measureText M c w, fillText w cx ly c))
        in (if int wi < int n - 1 then cx1 + spW else cx1, c1))"

text \<open>The body of the second \<open>lines.forEach((l, i) => ...)\<close>.\<close>

definition draw_emph_line :: "(string \<Rightarrow> string \<Rightarrow> real) \<Rightarrow> string list \<Rightarrow> string \<Rightarrow> string \<Rightarrow> string
    \<Rightarrow> real \<Rightarrow> real \<Rightarrow> real \<Rightarrow> nat \<times> string \<Rightarrow> canvas \<Rightarrow> canvas" where
  "draw_emph_line M emphWords origFont origFill emphColor x y lineHeight il c =
     (case il of (i, l) \<Rightarrow>
        let ly = y + real i * lineHeight in
        if l = '''' then c
        else let lineWords = split_on CHR '' '' l;
                 spW = measureText M c '' ''
             in snd (fold (draw_word M emphWords origFont origFill emphColor ly spW
                             (length lineWords))
                          (enumerate 0 lineWords) (x, c)))"

text \<open>\<open>drawTextWithEmphasis(ctx, text, emphasisWord, x, y, maxWidth, lineHeight,
  emphColor = C.red)\<close>\<close>

definition drawTextWithEmphasis :: "(string \<Rightarrow> string \<Rightarrow> real) \<Rightarrow> string \<Rightarrow> string
    \<Rightarrow> real \<Rightarrow> real \<Rightarrow> real \<Rightarrow> real \<Rightarrow> string \<Rightarrow> canvas \<Rightarrow> nat \<times> canvas" where
  "drawTextWithEmphasis M text emphasisWord x y maxWidth lineHeight emphColor c =
     (if text = '''' then (0, c)
      else if emphasisWord = '''' \<or>
              \<not> includes_str (toLowerCase text) (toLowerCase emphasisWord)
      then wrapText M text x y maxWidth lineHeight c
      else let lines = layout_lines (measureText M c) text maxWidth;
               origFont = font (cur c);
               origFill = fillStyle (cur c);
               emphWords = split_on CHR '' '' (toLowerCase emphasisWord)
           in (length lines,
               fold (draw_emph_line M emphWords origFont origFill emphColor x y lineHeight)
                    (enumerate 0 lines) c))"

subsection \<open>Notions used to state the properties of the text helpers\<close>

text \<open>The words of a text: the space-delimited tokens of its paragraphs.\<close>

definition tokens :: "string \<Rightarrow> string list" where
  "tokens text = concat (map (split_on CHR '' '') (split_on CHR 0x0A text))"

text \<open>The lines that reach \<open>fillText\<close>: the non-blank entries of \<open>lines\<close>, each with its
  index in \<open>lines\<close>.\<close>

definition drawn_lines :: "(string \<Rightarrow> real) \<Rightarrow> string \<Rightarrow> real \<Rightarrow> (nat \<times> string) list" where
  "drawn_lines m text maxWidth =
     filter (\<lambda>(i, l). l \<noteq> '''') (enumerate 0 (layout_lines m text maxWidth))"

text \<open>A laid-out line \<open>l\<close> respects the width \<open>W\<close>: with more than one word (a space
  inside) it measures at most \<open>W\<close>, and if it measures more than \<open>W\<close> it is one word of
  the text, whole, that itself measures more than \<open>W\<close>.\<close>

definition line_ok :: "(string \<Rightarrow> real) \<Rightarrow> real \<Rightarrow> string set \<Rightarrow> string \<Rightarrow> bool" where
  "line_ok m W T l = ((CHR '' '' \<in> set l \<longrightarrow> m l \<le> W) \<and>
     (W < m l \<longrightarrow> (\<exists>w \<in> T. l = trim w \<and> W < m w)))"

text \<open>The invariant of the variable \<open>line\<close> in the word loop: empty, or measured and
  found to fit, or one word followed by a space.\<close>

definition building_ok :: "(string \<Rightarrow> real) \<Rightarrow> real \<Rightarrow> string set \<Rightarrow> string \<Rightarrow> bool" where
  "building_ok m W T line = (line = [] \<or> m line \<le> W \<or> (\<exists>w \<in> T. line = w @ '' ''))"

text \<open>A text-measurement capability for concrete runs: every character is 10 units
  wide in every font.\<close>

definition fixed_pitch :: "string \<Rightarrow> string \<Rightarrow> real" where
  "fixed_pitch f s = 10 * real (length s)"

text \<open>A context in the state a new canvas has, nothing painted yet.\<close>

definition test_canvas :: canvas where
  "test_canvas =
     \<lparr>cur = \<lparr>fillStyle = ''#000000'', strokeStyle = ''#000000'', font = ''10px sans-serif'',
              globalAlpha = 1, lineWidth = 1, textAlign = ''start'', letterSpacing = Some ''0px'',
              lineDash = [], lineCap = ''butt'', lineJoin = ''miter''\<rparr>,
      stack = [], path = [], painted = []\<rparr>"

text \<open>What the emphasis pass paints, said word by word. A word whose cleaned form is one
  of the emphasis words is painted in ink in the bold variant of the font and underlined,
  4 units below the baseline, over its width in that bold font; any other word is painted
  as the context stands. The cursor advances by the word's width and, after every word
  but the last of the line, by the width of a space.\<close>

definition emph_word_paints :: "(string \<Rightarrow> string \<Rightarrow> real) \<Rightarrow> dstate \<Rightarrow> string list \<Rightarrow> string
    \<Rightarrow> real \<Rightarrow> real \<Rightarrow> string \<Rightarrow> paint list" where
  "emph_word_paints M d emphWords emphColor ly cx w =
     (if clean_word w \<in> set emphWords
      then [Fill_Text ((text_of d)\<lparr>t_color := C_ink, t_font := bold_font (font d)\<rparr>) w cx ly,
            Stroke_Path ((stroke_of d)\<lparr>s_color := emphColor, s_width := 2\<rparr>)
              [MoveTo cx (ly + 4), LineTo (cx + M (bold_font (font d)) w) (ly + 4)]]
      else [Fill_Text (text_of d) w cx ly])"

definition emph_word_width :: "(string \<Rightarrow> string \<Rightarrow> real) \<Rightarrow> dstate \<Rightarrow> string list \<Rightarrow> string \<Rightarrow> real" where
  "emph_word_width M d emphWords w =
     (if clean_word w \<in> set emphWords then M (bold_font (font d)) w else M (font d) w)"

fun emph_line_paints :: "(string \<Rightarrow> string \<Rightarrow> real) \<Rightarrow> dstate \<Rightarrow> string list \<Rightarrow> string
    \<Rightarrow> real \<Rightarrow> real \<Rightarrow> string list \<Rightarrow> paint list" where
  "emph_line_paints M d emphWords emphColor ly cx [] = []"
| "emph_line_paints M d emphWords emphColor ly cx (w # ws) =
     emph_word_paints M d emphWords emphColor ly cx w @
     emph_line_paints M d emphWords emphColor ly
       (cx + emph_word_width M d emphWords w + (if ws = [] then 0 else M (font d) '' '')) ws"

text \<open>The matching rule in the words of the specification, for comparison with
  \<open>isEmph\<close>: the lowercase form of the word, stripped of leading and trailing
  punctuation only, equals one of the phrase's space-delimited lowercase sub-words.\<close>

definition strip_punct :: "string \<Rightarrow> string" where
  "strip_punct s = rev (dropWhile is_punct (rev (dropWhile is_punct s)))"

definition spec_matches :: "string \<Rightarrow> string \<Rightarrow> bool" where
  "spec_matches emphasisPhrase w =
     (strip_punct (toLowerCase w) \<in> set (split_on CHR '' '' (toLowerCase emphasisPhrase)))"

subsection \<open>Reading the field-value record\<close>

text \<open>\<open>data.key\<close>: a missing key reads as \<open>undefined\<close>, which every use in the renderers
  treats like the empty string (\<open>data.key || dflt\<close>, \<open>if (data.key)\<close>).\<close>

definition field :: "(string \<rightharpoonup> string) \<Rightarrow> string \<Rightarrow> string" where
  "field d k = (case d k of None \<Rightarrow> '''' | Some v \<Rightarrow> v)"

text \<open>\<open>v || dflt\<close> on strings.\<close>

definition or_else :: "string \<Rightarrow> string \<Rightarrow> string" where
  "or_else v dflt = (if v = '''' then dflt else v)"

text \<open>\<open>String(n)\<close> for a natural number and \<open>padStart(2, "0")\<close>.\<close>

definition digit_char :: "nat \<Rightarrow> char" where
  "digit_char k = ''0123456789'' ! (k mod 10)"

fun digits_of :: "nat \<Rightarrow> string" where
  "digits_of n = (if n < 10 then [digit_char n] else digits_of (n div 10) @ [digit_char n])"

declare digits_of.simps [simp del]

definition padStart2 :: "string \<Rightarrow> string" where
  "padStart2 s = replicate (2 - length s) CHR ''0'' @ s"

text \<open>\<open>String.prototype.toUpperCase\<close> on code units up to U+00FF: the letters a to z
  and U+00E0 to U+00FE except the division sign U+00F7 move down by 32, and the sharp s
  U+00DF becomes \<open>SS\<close>. The upper-case forms of U+00B5 and U+00FF lie above U+00FF;
  these two are left as they are.\<close>

definition upper_char :: "char \<Rightarrow> string" where
  "upper_char c =
     (let n = (of_char c :: nat)
      in if (97 \<le> n \<and> n \<le> 122) \<or> (224 \<le> n \<and> n \<le> 254 \<and> n \<noteq> 247)
         then [char_of (n - 32)]
         else if n = 223 then ''SS'' else [c])"

definition toUpperCase :: "string \<Rightarrow> string" where
  "toUpperCase s = concat (map upper_char s)"

text \<open>The slide-number label, written out in nine renderers:
  \<open>if (slideNum) { ctx.fillStyle = C.grey; ctx.font = ...;
  ctx.fillText(String(slideNum).padStart(2, "0"), 64, 80) }\<close>. \<open>null\<close> and 0 are falsy.\<close>

definition draw_slideNum :: "nat option \<Rightarrow> canvas \<Rightarrow> canvas" where
  "draw_slideNum slideNum c =
     (case slideNum of
        None \<Rightarrow> c
      | Some n \<Rightarrow>
          if n = 0 then c
          else exec [set_fillStyle C_grey, set_font ''400 20px 'JetBrains Mono', monospace'',
                     fillText (padStart2 (digits_of n)) 64 80] c)"

text \<open>\<open>wrapText\<close> called for its drawing only.\<close>

definition wrapText_draw :: "(string \<Rightarrow> string \<Rightarrow> real) \<Rightarrow> string \<Rightarrow> real \<Rightarrow> real \<Rightarrow> real \<Rightarrow> real
    \<Rightarrow> canvas \<Rightarrow> canvas" where
  "wrapText_draw M text x y maxWidth lineHeight c = snd (wrapText M text x y maxWidth lineHeight c)"

text \<open>The opening common to twelve renderers: paper background, ruled lines, margin
  line at its default position and opacity.\<close>

definition paper_page :: "canvas \<Rightarrow> canvas" where
  "paper_page = exec [set_fillStyle C_paper, fillRect 0 0 C_slide C_slide,
                      drawRuledLines, drawMarginLine C_marginLine 0.7]"

subsection \<open>The renderers: cover, single, comparison\<close>

definition render_cover :: "(string \<Rightarrow> string \<Rightarrow> real) \<Rightarrow> (string \<rightharpoonup> string) \<Rightarrow> nat option
    \<Rightarrow> canvas \<Rightarrow> canvas" where
  "render_cover M d slideNum c =
     (let tx = C_coverBandL + 24;
          maxW = C_coverChannelW - 48;
          c1 = exec [set_fillStyle C_dark, fillRect 0 0 C_coverBandL C_slide,
                     set_fillStyle C_paper, fillRect C_coverBandL 0 C_coverChannelW C_slide,
                     set_fillStyle C_dark,
                     fillRect C_coverBandR 0 (C_slide - C_coverBandR) C_slide,
                     drawMarginLine C_coverBandL 1.0,
                     save, set_fillStyle C_red, fillRect tx 56 32 3,
                     set_fillStyle C_callout,
                     set_font ''700 14px 'JetBrains Mono', monospace'',
                     fillText ''TIGHT MARGINS'' tx 84, restore,
                     set_fillStyle C_ink, set_font ''700 72px 'Inter Tight', sans-serif''] c;
          (titleLines, c2) =
             wrapText M (or_else (field d ''title'') ''Your Title Here'') tx 420 maxW 80 c1;
          ruleY = 420 + real titleLines * 80 + 16
      in exec [set_fillStyle C_red, fillRect tx ruleY 80 4,
               set_fillStyle C_red, set_font ''500 32px 'Newsreader', Georgia, serif'',
               wrapText_draw M (field d ''subtitle'') tx (ruleY + 44) maxW 42,
               set_fillStyle C_grey, set_font ''400 18px 'JetBrains Mono', monospace'',
               fillText ''TIGHT MARGINS'' tx (C_slide - 48)] c2)"

definition render_single :: "(string \<Rightarrow> string \<Rightarrow> real) \<Rightarrow> (string \<rightharpoonup> string) \<Rightarrow> nat option
    \<Rightarrow> canvas \<Rightarrow> canvas" where
  "render_single M d slideNum c =
     (let c1 = exec [paper_page, draw_slideNum slideNum,
                     set_fillStyle C_ink, set_font ''700 68px 'Inter Tight', sans-serif''] c;
          (hLines, c2) =
             wrapText M (or_else (field d ''headline'') ''Headline'') C_contentStart 180
               (C_contentEnd - C_contentStart) 76 c1;
          bodyY = 180 + real hLines * 76 + 48;
          c3 = exec [set_fillStyle C_ink,
                     set_font ''500 34px 'Newsreader', Georgia, serif''] c2
      in snd (drawTextWithEmphasis M (field d ''body'') (field d ''emphasis'')
                C_contentStart bodyY (C_contentEnd - C_contentStart) 46 C_red c3))"

definition render_comparison :: "(string \<Rightarrow> string \<Rightarrow> real) \<Rightarrow> (string \<rightharpoonup> string) \<Rightarrow> nat option
    \<Rightarrow> canvas \<Rightarrow> canvas" where
  "render_comparison M d slideNum c =
     (let colL = C_contentStart;
          colMid = C_contentStart + (C_contentEnd - C_contentStart) / 2;
          colR = C_contentEnd;
          colW = (colR - colL - 24) / 2
      in exec ([paper_page, draw_slideNum slideNum,
                save, set_strokeStyle C_grey, set_lineWidth 0.5, beginPath,
                moveTo colMid 120, lineTo colMid (C_slide - 64), stroke, restore] @
               (if field d ''vs_label'' \<noteq> ''''
                then [set_fillStyle C_grey, set_font ''700 22px 'JetBrains Mono', monospace'',
                      set_textAlign ''center'', fillText (field d ''vs_label'') colMid 310,
                      set_textAlign ''start'']
                else []) @
               [set_fillStyle C_ink, set_font ''600 44px 'Inter Tight', sans-serif'',
                fillText (or_else (field d ''left_header'') ''Left'') colL 180,
                set_font ''500 30px 'Newsreader', Georgia, serif'',
                wrapText_draw M (field d ''left_body'') colL 236 colW 42,
                set_fillStyle C_ink, set_font ''600 44px 'Inter Tight', sans-serif'',
                fillText (or_else (field d ''right_header'') ''Right'') (colMid + 12) 180,
                set_font ''500 30px 'Newsreader', Georgia, serif'',
                wrapText_draw M (field d ''right_body'') (colMid + 12) 236 colW 42]) c)"

subsection \<open>The framework renderer and its four diagrams\<close>

definition labelFont :: string where
  "labelFont = ''500 24px 'JetBrains Mono', monospace''"

text \<open>\<open>(data.labels || "").split(",").map((s) => s.trim()).filter(Boolean).slice(0, 8)\<close>\<close>

definition parse_labels :: "(string \<rightharpoonup> string) \<Rightarrow> string list" where
  "parse_labels d =
     take 8 (filter (\<lambda>s. s \<noteq> '''') (map trim (split_on CHR '','' (field d ''labels''))))"

text \<open>\<open>xs.reduce((a, b) => a + b, 0)\<close>\<close>

definition reduce_sum :: "real list \<Rightarrow> real" where
  "reduce_sum xs = fold (\<lambda>b a. a + b) xs 0"

text \<open>One box of a flow row with the arrow that follows it; the state is the cursor
  \<open>curX\<close> and the canvas, \<open>n\<close> is the number of boxes in the row. The source has this
  loop body twice, in the single-row branch with the box top at \<open>cy - boxH / 2\<close>, the
  text at \<open>cy + 8\<close> and the arrow at \<open>cy\<close>, and in the two-row branch with the box top
  at \<open>rowY\<close>, the text at \<open>rowY + boxH / 2 + 8\<close> and the arrow at \<open>rowY + boxH / 2\<close>;
  the first is the second at \<open>rowY = cy - boxH / 2\<close>.\<close>

definition flow_box :: "real \<Rightarrow> nat \<Rightarrow> nat \<times> string \<times> real \<Rightarrow> real \<times> canvas \<Rightarrow> real \<times> canvas" where
  "flow_box rowY n ilb st =
     (case ilb of (i, label, bw) \<Rightarrow> case st of (curX, c) \<Rightarrow>
        let boxH = 64; arrowW = 36;
            c1 = exec [save, set_strokeStyle C_ink, set_lineWidth 2,
                       strokeRect curX rowY bw boxH,
                       set_fillStyle C_ink, set_font labelFont, set_textAlign ''center'',
                       fillText label (curX + bw / 2) (rowY + boxH / 2 + 8),
                       set_textAlign ''start'', restore] c;
            ax = curX + bw + 4;
            c2 = (if int i < int n - 1
                  then exec [save, set_strokeStyle C_ink, set_lineWidth 1.5,
                             beginPath, moveTo ax (rowY + boxH / 2),
                             lineTo (ax + arrowW - 8) (rowY + boxH / 2), stroke,
                             beginPath, moveTo (ax + arrowW - 8) (rowY + boxH / 2),
                             lineTo (ax + arrowW - 14) (rowY + boxH / 2 - 5),
                             lineTo (ax + arrowW - 14) (rowY + boxH / 2 + 5),
                             closePath, set_fillStyle C_ink, fill, restore] c1
                  else c1)
        in (curX + bw + arrowW, c2))"

text \<open>One row: \<open>totalW\<close>, \<open>startX = cx - totalW / 2\<close>, then the boxes from left to
  right.\<close>

definition flow_row :: "real \<Rightarrow> real \<Rightarrow> string list \<Rightarrow> real list \<Rightarrow> canvas \<Rightarrow> canvas" where
  "flow_row cx rowY row rw c =
     (let arrowW = 36;
          totalW = reduce_sum rw + (real_of_int (int (length row) - 1)) * arrowW;
          startX = cx - totalW / 2
      in snd (fold (flow_box rowY (length row)) (enumerate 0 (zip row rw)) (startX, c)))"

text \<open>The branch \<open>type === "flow"\<close>.\<close>

definition draw_flow :: "(string \<Rightarrow> string \<Rightarrow> real) \<Rightarrow> string list \<Rightarrow> real \<Rightarrow> real \<Rightarrow> real
    \<Rightarrow> canvas \<Rightarrow> canvas" where
  "draw_flow M labels contentW cx cy c =
     (let c1 = set_font labelFont c;
          pad = 28; boxH = 64; arrowW = 36;
          boxWidths = map (\<lambda>l. measureText M c1 l + pad * 2) labels;
          totalSingleRow =
            reduce_sum boxWidths + (real_of_int (int (length labels) - 1)) * arrowW
      in if totalSingleRow \<le> contentW
         then flow_row cx (cy - boxH / 2) labels boxWidths c1
         else let half = nat \<lceil>real (length labels) / 2\<rceil>
              in exec [flow_row cx (cy - 50 + 0 * (boxH + 40))
                         (take half labels) (take half boxWidths),
                       flow_row cx (cy - 50 + 1 * (boxH + 40))
                         (drop half labels) (drop half boxWidths)] c1)"

text \<open>The branch \<open>type === "quadrant"\<close>.\<close>

definition draw_quadrant_label :: "(real \<times> real) list \<Rightarrow> nat \<times> string \<Rightarrow> canvas \<Rightarrow> canvas" where
  "draw_quadrant_label positions il =
     (case il of (i, label) \<Rightarrow>
        exec [save, set_fillStyle C_ink, set_font labelFont, set_textAlign ''center'',
              fillText label (fst (positions ! i)) (snd (positions ! i) + 8),
              set_textAlign ''start'', restore])"

definition draw_quadrant :: "string list \<Rightarrow> real \<Rightarrow> real \<Rightarrow> real \<Rightarrow> real \<Rightarrow> canvas \<Rightarrow> canvas" where
  "draw_quadrant labels contentW areaH cx cy c =
     (let qW = contentW * 0.78; qH = areaH * 0.82;
          qx = cx - qW / 2; qy = cy - qH / 2;
          c1 = exec [save, set_strokeStyle C_ink, set_lineWidth 1.5, beginPath,
                     moveTo cx qy, lineTo cx (qy + qH), moveTo qx cy, lineTo (qx + qW) cy,
                     stroke, restore] c;
          positions = [(qx + qW * 0.25, qy + qH * 0.3), (qx + qW * 0.75, qy + qH * 0.3),
                       (qx + qW * 0.25, qy + qH * 0.7), (qx + qW * 0.75, qy + qH * 0.7)]
      in fold (draw_quadrant_label positions) (enumerate 0 (take 4 labels)) c1)"

text \<open>The branch \<open>type === "cycle"\<close>. \<open>Math.max(...ws)\<close> of an empty list is minus
  infinity, which makes \<open>nodeR\<close> the floor 36.\<close>

definition cycle_nodeR :: "real list \<Rightarrow> real" where
  "cycle_nodeR ws =
     (case ws of [] \<Rightarrow> 36 | w # ws' \<Rightarrow> max 36 (fold max ws' w / 2 + 16))"

definition cycle_node :: "real \<Rightarrow> real \<Rightarrow> real \<Rightarrow> real \<Rightarrow> nat \<Rightarrow> nat \<times> string \<Rightarrow> canvas \<Rightarrow> canvas" where
  "cycle_node cx cy radius nodeR n il =
     (case il of (i, label) \<Rightarrow>
        let angle = - pi / 2 + (real i / real n) * pi * 2;
            nx = cx + cos angle * radius;
            ny = cy + sin angle * radius
        in exec [save, beginPath, arc nx ny nodeR 0 (pi * 2),
                 set_fillStyle C_paper, fill, set_strokeStyle C_ink, set_lineWidth 1.5, stroke,
                 set_fillStyle C_ink, set_font labelFont, set_textAlign ''center'',
                 fillText label nx (ny + 8), set_textAlign ''start'', restore])"

definition draw_cycle :: "(string \<Rightarrow> string \<Rightarrow> real) \<Rightarrow> string list \<Rightarrow> real \<Rightarrow> real \<Rightarrow> real \<Rightarrow> real
    \<Rightarrow> canvas \<Rightarrow> canvas" where
  "draw_cycle M labels contentW areaH cx cy c =
     (let n = length labels;
          radius = min contentW areaH * 0.32;
          c1 = set_font labelFont c;
          nodeR = cycle_nodeR (map (\<lambda>l. measureText M c1 l) labels);
          c2 = exec [save, set_strokeStyle C_grey, set_lineWidth 1, setLineDash [6, 4],
                     beginPath, arc cx cy radius 0 (pi * 2), stroke, setLineDash [],
                     restore] c1
      in fold (cycle_node cx cy radius nodeR n) (enumerate 0 labels) c2)"

text \<open>The branch \<open>type === "hierarchy"\<close>; it runs with at least one label.\<close>

definition hierarchy_child :: "real \<Rightarrow> real \<Rightarrow> real \<Rightarrow> string \<times> real \<Rightarrow> real \<times> canvas
    \<Rightarrow> real \<times> canvas" where
  "hierarchy_child cx junctionY childY cb st =
     (case cb of (child, bw) \<Rightarrow> case st of (curX, c) \<Rightarrow>
        let boxH = 56; gap = 20; childCx = curX + bw / 2
        in (curX + bw + gap,
            exec [beginPath, moveTo cx junctionY, lineTo childCx junctionY,
                  lineTo childCx childY, stroke,
                  set_strokeStyle C_ink, set_lineWidth 1.5, strokeRect curX childY bw boxH,
                  set_fillStyle C_ink, set_font labelFont, set_textAlign ''center'',
                  fillText child childCx (childY + boxH / 2 + 8),
                  set_textAlign ''start'', set_strokeStyle C_ink] c))"

definition draw_hierarchy :: "(string \<Rightarrow> string \<Rightarrow> real) \<Rightarrow> string list \<Rightarrow> real \<Rightarrow> real
    \<Rightarrow> canvas \<Rightarrow> canvas" where
  "draw_hierarchy M labels areaTop cx c =
     (let root = hd labels; children = tl labels;
          c1 = set_font labelFont c;
          rootW = measureText M c1 root + 56;
          boxH = 56; rootX = cx - rootW / 2; rootY = areaTop + 20;
          c2 = exec [save, set_strokeStyle C_red, set_lineWidth 2,
                     strokeRect rootX rootY rootW boxH,
                     set_fillStyle C_red, set_font labelFont, set_textAlign ''center'',
                     fillText root cx (rootY + boxH / 2 + 8), set_textAlign ''start'',
                     restore] c1
      in if children = [] then c2
         else let c3 = set_font labelFont c2;
                  childBoxWidths = map (\<lambda>ch. measureText M c3 ch + 40) children;
                  gap = 20;
                  totalChildW = reduce_sum childBoxWidths
                                + (real_of_int (int (length children) - 1)) * gap;
                  childStartX = cx - totalChildW / 2;
                  junctionY = rootY + boxH + 36;
                  childY = junctionY + 36;
                  c4 = exec [save, set_strokeStyle C_ink, set_lineWidth 1.5,
                             beginPath, moveTo cx (rootY + boxH), lineTo cx junctionY,
                             stroke] c3
              in restore (snd (fold (hierarchy_child cx junctionY childY)
                                    (zip children childBoxWidths) (childStartX, c4))))"

definition render_framework :: "(string \<Rightarrow> string \<Rightarrow> real) \<Rightarrow> (string \<rightharpoonup> string) \<Rightarrow> nat option
    \<Rightarrow> canvas \<Rightarrow> canvas" where
  "render_framework M d slideNum c =
     (let c1 = exec [paper_page, draw_slideNum slideNum,
                     set_fillStyle C_ink, set_font ''700 52px 'Inter Tight', sans-serif'',
                     fillText (or_else (field d ''title'') ''Framework'') C_contentStart 172] c;
          labels = parse_labels d;
          type = or_else (field d ''diagram_type'') ''flow'';
          contentW = C_contentEnd - C_contentStart;
          c2 = (if labels \<noteq> [] then
                  let areaTop = 230;
                      areaBot = (if field d ''caption'' \<noteq> '''' then C_slide - 120
                                 else C_slide - 80);
                      areaH = areaBot - areaTop;
                      cx = C_contentStart + contentW / 2;
                      cy = areaTop + areaH / 2
                  in if type = ''flow'' then draw_flow M labels contentW cx cy c1
                     else if type = ''quadrant'' then draw_quadrant labels contentW areaH cx cy c1
                     else if type = ''cycle'' then draw_cycle M labels contentW areaH cx cy c1
                     else if type = ''hierarchy'' then draw_hierarchy M labels areaTop cx c1
                     else c1
                else c1)
      in if field d ''caption'' \<noteq> ''''
         then exec [set_fillStyle C_callout, set_font ''500 24px 'Newsreader', Georgia, serif'',
                    fillText (field d ''caption'') C_contentStart (C_slide - 80)] c2
         else c2)"

subsection \<open>The renderers: punchline, data, cta\<close>

text \<open>The body of \<open>lineWords.forEach\<close> in the punchline renderer: colour only, no
  underline, no change of font.\<close>

definition punch_word :: "(string \<Rightarrow> string \<Rightarrow> real) \<Rightarrow> string list \<Rightarrow> real \<Rightarrow> real \<Rightarrow> nat
    \<Rightarrow> nat \<times> string \<Rightarrow> real \<times> canvas \<Rightarrow> real \<times> canvas" where
  "punch_word M emphWords ly spaceW n iw st =
     (case iw of (wi, w) \<Rightarrow> case st of (cx, c) \<Rightarrow>
        let c1 = exec [set_fillStyle (if isEmph emphWords w then C_red else C_ink),
                       fillText w cx ly] c;
            cx1 = cx + measureText M c1 w
        in (if int wi < int n - 1 then cx1 + spaceW else cx1, c1))"

definition punch_line :: "(string \<Rightarrow> string \<Rightarrow> real) \<Rightarrow> string list \<Rightarrow> real \<Rightarrow> real
    \<Rightarrow> nat \<times> string \<Rightarrow> canvas \<Rightarrow> canvas" where
  "punch_line M emphWords startY spaceW il c =
     (case il of (i, line) \<Rightarrow>
        let ly = startY + real i * 84 in
        if emphWords \<noteq> []
        then let lineWords = split_on CHR '' '' line
             in snd (fold (punch_word M emphWords ly spaceW (length lineWords))
                          (enumerate 0 lineWords) (C_contentStart, c))
        else fillText line C_contentStart ly c)"

definition render_punchline :: "(string \<Rightarrow> string \<Rightarrow> real) \<Rightarrow> (string \<rightharpoonup> string) \<Rightarrow> nat option
    \<Rightarrow> canvas \<Rightarrow> canvas" where
  "render_punchline M d slideNum c =
     (let c0 = paper_page c;
          text = or_else (field d ''text'') ''Your punchline here.'';
          emphasis = field d ''emphasis'';
          c1 = exec [set_fillStyle C_ink, set_font ''700 76px 'Inter Tight', sans-serif''] c0;
          fullW = C_contentEnd - C_contentStart;
          testLines = (case wrap_words (measureText M c1) fullW (split_on CHR '' '' text) '''' []
                       of (testLine, ls) \<Rightarrow> ls @ [trim testLine]);
          totalH = real (length testLines) * 84;
          startY = (C_slide - totalH) / 2 + 76;
          emphWords = (if emphasis \<noteq> '''' then split_on CHR '' '' (toLowerCase emphasis)
                       else []);
          spaceW = measureText M c1 '' ''
      in fold (punch_line M emphWords startY spaceW) (enumerate 0 testLines) c1)"

definition render_data :: "(string \<Rightarrow> string \<Rightarrow> real) \<Rightarrow> (string \<rightharpoonup> string) \<Rightarrow> nat option
    \<Rightarrow> canvas \<Rightarrow> canvas" where
  "render_data M d slideNum c =
     exec ([paper_page, draw_slideNum slideNum,
            set_fillStyle C_red, set_font ''700 108px 'JetBrains Mono', monospace'',
            fillText (or_else (field d ''data_point'') ''0%'') C_contentStart 480,
            set_fillStyle C_ink, set_font ''500 32px 'Newsreader', Georgia, serif'',
            wrapText_draw M (field d ''context'') C_contentStart 548
              (C_contentEnd - C_contentStart) 44] @
           (if field d ''source'' \<noteq> ''''
            then [set_fillStyle C_grey,
                  set_font ''italic 500 20px 'Newsreader', Georgia, serif'',
                  fillText (field d ''source'') C_contentStart (C_slide - 80)]
            else [])) c"

definition render_cta :: "(string \<Rightarrow> string \<Rightarrow> real) \<Rightarrow> (string \<rightharpoonup> string) \<Rightarrow> nat option
    \<Rightarrow> canvas \<Rightarrow> canvas" where
  "render_cta M d slideNum c =
     exec ([set_fillStyle C_dark, fillRect 0 0 C_slide C_slide,
            drawMarginLine C_marginLine 0.6,
            set_fillStyle C_paper, set_font ''900 72px 'Inter Tight', sans-serif'',
            fillText ''TIGHT MARGINS'' C_contentStart 440,
            set_fillStyle C_red, fillRect C_contentStart 468 80 4,
            set_fillStyle C_paper, set_font ''600 40px 'Inter Tight', sans-serif'',
            fillText (or_else (field d ''cta_text'') ''Subscribe for more.'') C_contentStart 540,
            set_fillStyle C_red, set_font ''400 26px 'JetBrains Mono', monospace'',
            fillText (or_else (field d ''url'') ''tightmargins.com'') C_contentStart 592] @
           (if field d ''handle'' \<noteq> ''''
            then [set_fillStyle C_grey, set_font ''400 22px 'JetBrains Mono', monospace'',
                  fillText (field d ''handle'') C_contentStart 628]
            else [])) c"

subsection \<open>The renderers: numbered list, quote, section divider\<close>

text \<open>\<open>for (let n = 1; n <= 5; n++) { const t = data[`item${n}_title`];
  if (t) items.push({ title: t, body: data[`item${n}_body`] || "" }) }\<close>\<close>

definition list_items :: "(string \<rightharpoonup> string) \<Rightarrow> (string \<times> string) list" where
  "list_items d =
     map (\<lambda>n. (field d (''item'' @ digits_of n @ ''_title''),
                field d (''item'' @ digits_of n @ ''_body'')))
         (filter (\<lambda>n. field d (''item'' @ digits_of n @ ''_title'') \<noteq> '''') [1..<6])"

definition list_item :: "(string \<Rightarrow> string \<Rightarrow> real) \<Rightarrow> real \<Rightarrow> real \<Rightarrow> nat
    \<Rightarrow> nat \<times> string \<times> string \<Rightarrow> canvas \<Rightarrow> canvas" where
  "list_item M listStart spacing n it =
     (case it of (i, title, body) \<Rightarrow>
        let numX = C_contentStart; textX = C_contentStart + 72;
            textW = C_contentEnd - textX;
            baseY = listStart + real i * spacing
        in exec ([set_fillStyle C_red, set_font ''700 36px 'JetBrains Mono', monospace'',
                  fillText (digits_of (i + 1)) numX (baseY + 28),
                  set_fillStyle C_ink, set_font ''600 24px 'Inter Tight', sans-serif'',
                  fillText title textX (baseY + 20)] @
                 (if body \<noteq> ''''
                  then [set_font ''400 20px 'Newsreader', Georgia, serif'',
                        wrapText_draw M body textX (baseY + 48) textW 28]
                  else []) @
                 (if int i < int n - 1
                  then [save, set_strokeStyle C_grey, set_lineWidth 0.5, set_globalAlpha 0.5,
                        beginPath, moveTo textX (baseY + spacing - 16),
                        lineTo (C_contentStart + 524) (baseY + spacing - 16), stroke, restore]
                  else [])))"

definition render_numbered_list :: "(string \<Rightarrow> string \<Rightarrow> real) \<Rightarrow> (string \<rightharpoonup> string) \<Rightarrow> nat option
    \<Rightarrow> canvas \<Rightarrow> canvas" where
  "render_numbered_list M d slideNum c =
     (let c1 = exec [paper_page, draw_slideNum slideNum,
                     set_fillStyle C_ink, set_font ''700 68px 'Inter Tight', sans-serif''] c;
          (hLines, c2) =
             wrapText M (or_else (field d ''headline'') ''Your List'') C_contentStart 180
               (C_contentEnd - C_contentStart) 76 c1;
          items = list_items d
      in if items = [] then c2
         else let listStart = max (180 + real hLines * 76 + 34) 290;
                  spacing = (if length items \<le> 3 then 140
                             else if length items = 4 then 118 else 100)
              in fold (list_item M listStart spacing (length items)) (enumerate 0 items) c2)"

text \<open>The decorative opening quote mark is the glyph U+201C, which lies outside the
  string type; the straight double quote stands for it.\<close>

definition ldquo :: string where
  "ldquo = [CHR 0x22]"

definition render_quote :: "(string \<Rightarrow> string \<Rightarrow> real) \<Rightarrow> (string \<rightharpoonup> string) \<Rightarrow> nat option
    \<Rightarrow> canvas \<Rightarrow> canvas" where
  "render_quote M d slideNum c =
     (let c1 = exec [paper_page, draw_slideNum slideNum,
                     save, set_fillStyle C_red, set_globalAlpha 0.25,
                     set_font ''600 120px 'Newsreader', Georgia, serif'',
                     fillText ldquo 164 400, restore,
                     set_fillStyle C_ink,
                     set_font ''italic 500 32px 'Newsreader', Georgia, serif''] c;
          (qLines, c2) =
             wrapText M (or_else (field d ''quote_text'') ''Your quote here.'')
               C_contentStart 440 740 46 c1;
          ruleY = 440 + real qLines * 46 + 20
      in exec ([set_fillStyle C_red, fillRect C_contentStart ruleY 48 2] @
               (if field d ''attribution'' \<noteq> ''''
                then [set_fillStyle C_grey, set_font ''400 16px 'JetBrains Mono', monospace'',
                      fillText (field d ''attribution'') C_contentStart (ruleY + 32)] @
                     (if field d ''role'' \<noteq> ''''
                      then [save, set_globalAlpha 0.7,
                            set_font ''400 13px 'JetBrains Mono', monospace'',
                            fillText (field d ''role'') C_contentStart (ruleY + 54), restore]
                      else [])
                else [])) c2)"

definition render_section_divider :: "(string \<Rightarrow> string \<Rightarrow> real) \<Rightarrow> (string \<rightharpoonup> string)
    \<Rightarrow> nat option \<Rightarrow> canvas \<Rightarrow> canvas" where
  "render_section_divider M d slideNum c =
     exec [paper_page,
           set_fillStyle C_red, set_font ''400 16px 'JetBrains Mono', monospace'',
           set_letterSpacing_if_supported ''1.3px'',
           fillText (toUpperCase (or_else (field d ''part_label'') ''PART ONE''))
             C_contentStart 440,
           set_letterSpacing_if_supported ''0px'',
           fillRect C_contentStart 456 48 2,
           set_fillStyle C_ink, set_font ''700 44px 'Inter Tight', sans-serif'',
           wrapText_draw M (or_else (field d ''section_title'') ''Section Title'')
             C_contentStart 510 (C_contentEnd - C_contentStart) 52] c"

subsection \<open>The renderers: two-up, three-up, checklist, blank\<close>

definition two_up_item :: "(string \<Rightarrow> string \<Rightarrow> real) \<Rightarrow> real \<Rightarrow> real
    \<Rightarrow> nat \<times> string \<times> string \<times> real \<Rightarrow> canvas \<Rightarrow> canvas" where
  "two_up_item M textX textW it =
     (case it of (i, title, body, y) \<Rightarrow>
        exec ([save, set_fillStyle C_red, set_globalAlpha 0.25,
               set_font ''700 52px 'JetBrains Mono', monospace'',
               fillText (digits_of (i + 1)) C_contentStart (y + 44), restore,
               set_fillStyle C_ink, set_font ''600 26px 'Inter Tight', sans-serif'',
               fillText title textX (y + 28)] @
              (if body \<noteq> ''''
               then [set_font ''400 22px 'Newsreader', Georgia, serif'',
                     wrapText_draw M body textX (y + 60) textW 32]
               else [])))"

definition render_two_up :: "(string \<Rightarrow> string \<Rightarrow> real) \<Rightarrow> (string \<rightharpoonup> string) \<Rightarrow> nat option
    \<Rightarrow> canvas \<Rightarrow> canvas" where
  "render_two_up M d slideNum c =
     (let c1 = exec [paper_page, draw_slideNum slideNum,
                     set_fillStyle C_ink, set_font ''700 68px 'Inter Tight', sans-serif''] c;
          (hLines, c2) =
             wrapText M (or_else (field d ''headline'') ''Two things'') C_contentStart 180
               (C_contentEnd - C_contentStart) 76 c1;
          item1Y = max (180 + real hLines * 76 + 12) 268;
          item2Y = item1Y + 272;
          dividerY = item1Y + 232;
          textX = C_contentStart + 80;
          textW = C_contentEnd - textX;
          c3 = fold (two_up_item M textX textW)
                 (enumerate 0 [(field d ''item1_title'', field d ''item1_body'', item1Y),
                               (field d ''item2_title'', field d ''item2_body'', item2Y)]) c2
      in exec [save, set_strokeStyle C_grey, set_lineWidth 0.5, set_globalAlpha 0.5,
               beginPath, moveTo textX dividerY, lineTo 900 dividerY, stroke, restore] c3)"

definition three_up_divider :: "real \<Rightarrow> real \<Rightarrow> canvas \<Rightarrow> canvas" where
  "three_up_divider itemsY dx =
     exec [save, set_strokeStyle C_grey, set_lineWidth 0.5, set_globalAlpha 0.4,
           beginPath, moveTo dx itemsY, lineTo dx (C_slide - 64), stroke, restore]"

definition three_up_col :: "(string \<Rightarrow> string \<Rightarrow> real) \<Rightarrow> (string \<rightharpoonup> string) \<Rightarrow> real \<Rightarrow> real
    \<Rightarrow> nat \<times> real \<Rightarrow> canvas \<Rightarrow> canvas" where
  "three_up_col M d itemsY colW ic =
     (case ic of (i, colX) \<Rightarrow>
        let circleR = 28;
            title = field d (''item'' @ digits_of (i + 1) @ ''_title'');
            body = field d (''item'' @ digits_of (i + 1) @ ''_body'');
            cx = colX + circleR; cy = itemsY + circleR;
            color = (if i = 0 then C_red else C_ink);
            titleY = itemsY + circleR * 2 + 28
        in exec [save, beginPath, arc cx cy circleR 0 (pi * 2),
                 set_strokeStyle color, set_lineWidth 2, stroke,
                 set_fillStyle color, set_font ''700 22px 'JetBrains Mono', monospace'',
                 set_textAlign ''center'', fillText (digits_of (i + 1)) cx (cy + 8),
                 set_textAlign ''start'', restore,
                 set_fillStyle C_ink, set_font ''600 22px 'Inter Tight', sans-serif'',
                 fillText title colX titleY,
                 set_font ''400 18px 'Newsreader', Georgia, serif'',
                 wrapText_draw M body colX (titleY + 28) colW 26])"

definition render_three_up :: "(string \<Rightarrow> string \<Rightarrow> real) \<Rightarrow> (string \<rightharpoonup> string) \<Rightarrow> nat option
    \<Rightarrow> canvas \<Rightarrow> canvas" where
  "render_three_up M d slideNum c =
     (let c1 = exec [paper_page, draw_slideNum slideNum,
                     set_fillStyle C_ink, set_font ''700 68px 'Inter Tight', sans-serif''] c;
          (hLines, c2) =
             wrapText M (or_else (field d ''headline'') ''Three pillars'') C_contentStart 180
               (C_contentEnd - C_contentStart) 76 c1;
          colW = 256; gutter = 36;
          cols = [C_contentStart, C_contentStart + colW + gutter,
                  C_contentStart + (colW + gutter) * 2];
          itemsY = max (180 + real hLines * 76 + 34) 290;
          c3 = fold (three_up_divider itemsY)
                 [cols ! 1 - gutter / 2, cols ! 2 - gutter / 2] c2
      in fold (three_up_col M d itemsY colW) (enumerate 0 cols) c3)"

definition check_do_item :: "(string \<Rightarrow> string \<Rightarrow> real) \<Rightarrow> real \<Rightarrow> real \<Rightarrow> nat \<times> string
    \<Rightarrow> canvas \<Rightarrow> canvas" where
  "check_do_item M col1X colW it =
     (case it of (i, item) \<Rightarrow>
        let y = 290 + real i * 80
        in exec [save, set_strokeStyle C_red, set_lineWidth 2.5, set_lineCap ''round'',
                 set_lineJoin ''round'', beginPath, moveTo (col1X + 4) (y + 10),
                 lineTo (col1X + 9) (y + 16), lineTo (col1X + 20) (y + 3), stroke, restore,
                 set_fillStyle C_ink, set_font ''400 20px 'Newsreader', Georgia, serif'',
                 wrapText_draw M item (col1X + 32) (y + 14) (colW - 36) 28])"

definition check_dont_item :: "(string \<Rightarrow> string \<Rightarrow> real) \<Rightarrow> real \<Rightarrow> real \<Rightarrow> nat \<times> string
    \<Rightarrow> canvas \<Rightarrow> canvas" where
  "check_dont_item M col2X colW it =
     (case it of (i, item) \<Rightarrow>
        let y = 290 + real i * 80
        in exec [save, set_strokeStyle C_grey, set_lineWidth 2.5, set_lineCap ''round'',
                 beginPath, moveTo (col2X + 3) (y + 3), lineTo (col2X + 19) (y + 19),
                 moveTo (col2X + 19) (y + 3), lineTo (col2X + 3) (y + 19), stroke, restore,
                 set_fillStyle C_grey, set_font ''400 20px 'Newsreader', Georgia, serif'',
                 wrapText_draw M item (col2X + 32) (y + 14) (colW - 36) 28])"

text \<open>A column header of the checklist with its underline of the header's measured
  width.\<close>

definition check_header :: "(string \<Rightarrow> string \<Rightarrow> real) \<Rightarrow> string \<Rightarrow> string \<Rightarrow> real \<Rightarrow> real
    \<Rightarrow> canvas \<Rightarrow> canvas" where
  "check_header M color label colX headerY c =
     (let c1 = exec [set_fillStyle color, set_font ''700 14px 'JetBrains Mono', monospace'',
                     fillText label colX headerY] c;
          w = measureText M c1 label
      in exec [save, set_strokeStyle color, set_lineWidth 1, beginPath,
               moveTo colX (headerY + 4), lineTo (colX + w) (headerY + 4), stroke,
               restore] c1)"

definition render_checklist :: "(string \<Rightarrow> string \<Rightarrow> real) \<Rightarrow> (string \<rightharpoonup> string) \<Rightarrow> nat option
    \<Rightarrow> canvas \<Rightarrow> canvas" where
  "render_checklist M d slideNum c =
     (let col1X = C_contentStart; col2X = 612; colW = 400; headerY = 256;
          doItems = filter (\<lambda>s. s \<noteq> '''')
                      [field d ''do1'', field d ''do2'', field d ''do3'', field d ''do4''];
          dontItems = filter (\<lambda>s. s \<noteq> '''')
                      [field d ''dont1'', field d ''dont2'', field d ''dont3'', field d ''dont4''];
          c1 = exec [paper_page, draw_slideNum slideNum,
                     set_fillStyle C_ink, set_font ''700 68px 'Inter Tight', sans-serif'',
                     wrapText_draw M (or_else (field d ''headline'') ''Do this, not that'')
                       C_contentStart 180 (C_contentEnd - C_contentStart) 76,
                     save, set_strokeStyle C_grey, set_lineWidth 0.5, set_globalAlpha 0.3,
                     beginPath, moveTo 596 244, lineTo 596 (C_slide - 80), stroke, restore,
                     check_header M C_red ''DO THIS'' col1X headerY,
                     check_header M C_grey ''NOT THIS'' col2X headerY] c;
          c2 = fold (check_do_item M col1X colW) (enumerate 0 doItems) c1
      in fold (check_dont_item M col2X colW) (enumerate 0 dontItems) c2)"

definition render_blank :: "(string \<Rightarrow> string \<Rightarrow> real) \<Rightarrow> (string \<rightharpoonup> string) \<Rightarrow> nat option
    \<Rightarrow> canvas \<Rightarrow> canvas" where
  "render_blank M d slideNum c =
     exec ([paper_page, draw_slideNum slideNum] @
           (if field d ''header'' \<noteq> ''''
            then [set_fillStyle C_ink, set_font ''700 40px 'Inter Tight', sans-serif'',
                  wrapText_draw M (field d ''header'') C_contentStart 180 760 48]
            else []) @
           (if field d ''callout'' \<noteq> ''''
            then [set_fillStyle C_grey,
                  set_font ''italic 400 18px 'Newsreader', Georgia, serif'',
                  wrapText_draw M (field d ''callout'') C_contentStart 980 500 26]
            else [])) c"

subsection \<open>The renderer table and the slide canvas\<close>

text \<open>The 14 own properties of the object \<open>renderers\<close>, in source order.\<close>

definition renderers :: "(string \<times> ((string \<Rightarrow> string \<Rightarrow> real) \<Rightarrow> (string \<rightharpoonup> string) \<Rightarrow> nat option
    \<Rightarrow> canvas \<Rightarrow> canvas)) list" where
  "renderers =
     [(''cover'', render_cover), (''single'', render_single),
      (''comparison'', render_comparison), (''framework'', render_framework),
      (''punchline'', render_punchline), (''data'', render_data), (''cta'', render_cta),
      (''numbered_list'', render_numbered_list), (''quote'', render_quote),
      (''section_divider'', render_section_divider), (''two_up'', render_two_up),
      (''three_up'', render_three_up), (''checklist'', render_checklist),
      (''blank'', render_blank)]"

text \<open>\<open>renderers\<close> is an object literal, so \<open>renderers[template]\<close> also finds the
  properties inherited from \<open>Object.prototype\<close>. Called as
  \<open>renderers[template](ctx, data || {}, slideNum)\<close>, the value of \<open>__proto__\<close> is not a
  function, and \<open>__defineGetter__\<close> and \<open>__defineSetter__\<close> reject their second argument,
  which is not callable: these three throw a \<open>TypeError\<close>. The other inherited methods
  return without touching the context.\<close>

definition inherited_throwing :: "string list" where
  "inherited_throwing = [''__proto__'', ''__defineGetter__'', ''__defineSetter__'']"

text \<open>The guarded call that \<open>SlideCanvas\<close> and \<open>exportPDF\<close> both make:
  \<open>if (renderers[template]) { renderers[template](ctx, data || {}, slideNum) }\<close>.\<close>

definition render_guarded :: "(string \<Rightarrow> string \<Rightarrow> real) \<Rightarrow> string \<Rightarrow> (string \<rightharpoonup> string)
    \<Rightarrow> nat option \<Rightarrow> canvas \<Rightarrow> js_error + canvas" where
  "render_guarded M tmpl d slideNum c =
     (case map_of renderers tmpl of
        Some r \<Rightarrow> Inr (r M d slideNum c)
      | None \<Rightarrow>
          if tmpl \<in> set inherited_throwing then Inl TypeError
          else Inr c)"

definition clearRect :: "real \<Rightarrow> real \<Rightarrow> real \<Rightarrow> real \<Rightarrow> canvas \<Rightarrow> canvas" where
  "clearRect x y w h c = put (Clear_Rect x y w h) c"

text \<open>Assigning \<open>canvas.width\<close> resets the context to its default state and clears the
  bitmap.\<close>

definition reset_canvas :: "real \<Rightarrow> real \<Rightarrow> canvas \<Rightarrow> canvas" where
  "reset_canvas w h c =
     \<lparr>cur = \<lparr>fillStyle = ''#000000'', strokeStyle = ''#000000'', font = ''10px sans-serif'',
              globalAlpha = 1, lineWidth = 1, textAlign = ''start'',
              letterSpacing = map_option (\<lambda>_. ''0px'') (letterSpacing (cur c)),
              lineDash = [], lineCap = ''butt'', lineJoin = ''miter''\<rparr>,
      stack = [], path = [], painted = painted c @ [Reset_Bitmap w h]\<rparr>"

text \<open>The effect of \<open>SlideCanvas\<close> once the fonts are loaded.\<close>

definition SlideCanvas :: "(string \<Rightarrow> string \<Rightarrow> real) \<Rightarrow> string \<Rightarrow> (string \<rightharpoonup> string)
    \<Rightarrow> nat option \<Rightarrow> canvas \<Rightarrow> js_error + canvas" where
  "SlideCanvas M tmpl d slideNum c =
     render_guarded M tmpl d slideNum
       (clearRect 0 0 C_slide C_slide (reset_canvas C_slide C_slide c))"

subsection \<open>Notions used to state the properties of the diagrams\<close>

text \<open>The width of a row of boxes: the box widths plus one arrow width of 36 between
  consecutive boxes.\<close>

definition row_total :: "real list \<Rightarrow> real" where
  "row_total ws = sum_list ws + (real (length ws) - 1) * 36"

text \<open>The boxes of a row, as (label, left edge, width): from the left edge \<open>x\<close>
  rightwards, each box followed by an arrow width.\<close>

fun flow_row_boxes :: "real \<Rightarrow> (string \<times> real) list \<Rightarrow> (string \<times> real \<times> real) list" where
  "flow_row_boxes x [] = []"
| "flow_row_boxes x ((l, bw) # rest) = (l, x, bw) # flow_row_boxes (x + bw + 36) rest"

text \<open>What is painted for one box whose top is at \<open>rowY\<close>: its outline, its label
  centred in it, and, when \<open>arrow\<close> holds, the arrow to the next box: a line and a
  filled triangular head.\<close>

definition flow_box_paints :: "dstate \<Rightarrow> real \<Rightarrow> bool \<Rightarrow> string \<Rightarrow> real \<Rightarrow> real \<Rightarrow> paint list" where
  "flow_box_paints d rowY arrow l x bw =
     [Stroke_Rect ((stroke_of d)\<lparr>s_color := C_ink, s_width := 2\<rparr>) x rowY bw 64,
      Fill_Text ((text_of d)\<lparr>t_color := C_ink, t_font := labelFont, t_align := ''center''\<rparr>)
        l (x + bw / 2) (rowY + 40)] @
     (if arrow
      then [Stroke_Path ((stroke_of d)\<lparr>s_color := C_ink, s_width := 1.5\<rparr>)
              [MoveTo (x + bw + 4) (rowY + 32), LineTo (x + bw + 32) (rowY + 32)],
            Fill_Path C_ink (globalAlpha d)
              [MoveTo (x + bw + 32) (rowY + 32), LineTo (x + bw + 26) (rowY + 27),
               LineTo (x + bw + 26) (rowY + 37), ClosePath]]
      else [])"

text \<open>The paints of a list of boxes: every box but the last has an arrow.\<close>

fun boxes_paints :: "dstate \<Rightarrow> real \<Rightarrow> (string \<times> real \<times> real) list \<Rightarrow> paint list" where
  "boxes_paints d rowY [] = []"
| "boxes_paints d rowY ((l, x, bw) # bs) =
     flow_box_paints d rowY (bs \<noteq> []) l x bw @ boxes_paints d rowY bs"

text \<open>A row centred on \<open>cx\<close>: its boxes start at \<open>cx\<close> minus half the row's width.\<close>

definition centred_row :: "real \<Rightarrow> (string \<times> real) list \<Rightarrow> (string \<times> real \<times> real) list" where
  "centred_row cx row = flow_row_boxes (cx - row_total (map snd row) / 2) row"

text \<open>Degrees as radians.\<close>

definition deg :: "real \<Rightarrow> real" where
  "deg a = a * pi / 180"

text \<open>What is painted for node \<open>i\<close> of \<open>n\<close> on the ring of radius \<open>radius\<close> around
  \<open>(cx, cy)\<close>: a disc of radius \<open>nodeR\<close> filled with paper, its outline, and the label
  centred on it, the centre standing at the angle of -90 degrees plus \<open>i / n\<close> of a full
  turn.\<close>

definition cycle_node_paints :: "dstate \<Rightarrow> real \<Rightarrow> real \<Rightarrow> real \<Rightarrow> real \<Rightarrow> nat \<Rightarrow> nat \<Rightarrow> string
    \<Rightarrow> paint list" where
  "cycle_node_paints d cx cy radius nodeR n i l =
     (let a = deg (- 90 + (real i / real n) * 360);
          nx = cx + cos a * radius;
          ny = cy + sin a * radius
      in [Fill_Path C_paper (globalAlpha d) [Arc nx ny nodeR 0 (2 * pi)],
          Stroke_Path ((stroke_of d)\<lparr>s_color := C_ink, s_width := 1.5\<rparr>)
            [Arc nx ny nodeR 0 (2 * pi)],
          Fill_Text ((text_of d)\<lparr>t_color := C_ink, t_font := labelFont, t_align := ''center''\<rparr>)
            l nx (ny + 8)])"

text \<open>The dashed ring.\<close>

definition cycle_ring_paint :: "dstate \<Rightarrow> real \<Rightarrow> real \<Rightarrow> real \<Rightarrow> paint" where
  "cycle_ring_paint d cx cy radius =
     Stroke_Path ((stroke_of d)\<lparr>s_color := C_grey, s_width := 1, s_dash := [6, 4]\<rparr>)
       [Arc cx cy radius 0 (2 * pi)]"

text \<open>The statements of the framework renderer before its diagram: the paper page,
  the slide number and the title.\<close>

definition framework_head :: "(string \<rightharpoonup> string) \<Rightarrow> nat option \<Rightarrow> canvas \<Rightarrow> canvas" where
  "framework_head d slideNum c =
     exec [paper_page, draw_slideNum slideNum, set_fillStyle C_ink,
           set_font ''700 52px 'Inter Tight', sans-serif'',
           fillText (or_else (field d ''title'') ''Framework'') C_contentStart 172] c"

text \<open>The caption that the framework renderer paints last, when there is one.\<close>

definition caption_paints :: "dstate \<Rightarrow> (string \<rightharpoonup> string) \<Rightarrow> paint list" where
  "caption_paints st d =
     (if field d ''caption'' = '''' then []
      else [Fill_Text ((text_of st)\<lparr>t_color := C_callout,
                         t_font := ''500 24px 'Newsreader', Georgia, serif''\<rparr>)
              (field d ''caption'') C_contentStart (C_slide - 80)])"

subsection \<open>The surface as pixels\<close>

text \<open>The surface is a square of \<open>C.slide\<close> by \<open>C.slide\<close> unit cells of the renderers'
  coordinate space; the cell \<open>(i, j)\<close> is the square from \<open>(i, j)\<close> to \<open>(i + 1, j + 1)\<close>.\<close>

typedef pixel = "{(i :: nat, j :: nat). i < 1080 \<and> j < 1080}"
  by (rule exI [of _ "(0, 0)"]) simp

text \<open>A rectangle covers a cell when the cell lies inside it, and misses a cell when
  they share no area.\<close>

definition covers :: "real \<Rightarrow> real \<Rightarrow> real \<Rightarrow> real \<Rightarrow> pixel \<Rightarrow> bool" where
  "covers x y w h p =
     (case Rep_pixel p of (i, j) \<Rightarrow>
        x \<le> real i \<and> real i + 1 \<le> x + w \<and> y \<le> real j \<and> real j + 1 \<le> y + h)"

definition misses :: "real \<Rightarrow> real \<Rightarrow> real \<Rightarrow> real \<Rightarrow> pixel \<Rightarrow> bool" where
  "misses x y w h p =
     (case Rep_pixel p of (i, j) \<Rightarrow>
        real i + 1 \<le> x \<or> x + w \<le> real i \<or> real j + 1 \<le> y \<or> y + h \<le> real j)"

text \<open>The pixels of a surface after a sequence of painting calls, for a rasteriser \<open>R\<close>
  that says how one call changes the pixels.\<close>

definition pixels :: "(paint \<Rightarrow> (pixel \<Rightarrow> 'px) \<Rightarrow> pixel \<Rightarrow> 'px) \<Rightarrow> (pixel \<Rightarrow> 'px) \<Rightarrow> paint list
    \<Rightarrow> pixel \<Rightarrow> 'px" where
  "pixels R s ops = fold R ops s"

text \<open>What is asked of a rasteriser: \<open>fillRect\<close> at full alpha in one of the two
  background colours, which are opaque, gives every cell the rectangle covers the colour
  \<open>solid col\<close>, whatever was there, and leaves every cell the rectangle misses as it
  was. Nothing is asked about any other call.\<close>

definition opaque_fills :: "(paint \<Rightarrow> (pixel \<Rightarrow> 'px) \<Rightarrow> pixel \<Rightarrow> 'px) \<Rightarrow> (string \<Rightarrow> 'px) \<Rightarrow> bool" where
  "opaque_fills R solid =
     (\<forall>col x y w h s p. col = C_paper \<or> col = C_dark \<longrightarrow>
        (covers x y w h p \<longrightarrow> R (Fill_Rect col 1 x y w h) s p = solid col) \<and>
        (misses x y w h p \<longrightarrow> R (Fill_Rect col 1 x y w h) s p = s p))"

text \<open>A rasteriser for concrete runs, with colour names as pixel values: only opaque
  rectangle fills leave a trace.\<close>

definition flat_raster :: "paint \<Rightarrow> (pixel \<Rightarrow> string) \<Rightarrow> pixel \<Rightarrow> string" where
  "flat_raster op s p =
     (case op of
        Fill_Rect col a x y w h \<Rightarrow> if a = 1 \<and> covers x y w h p then col else s p
      | _ \<Rightarrow> s p)"

text \<open>The state in which both callers hand the context to a renderer, as far as it
  matters: full alpha, text aligned at the start, letter spacing absent or zero.\<close>

definition std :: "dstate \<Rightarrow> bool" where
  "std d = (globalAlpha d = 1 \<and> textAlign d = ''start'' \<and>
            (letterSpacing d = None \<or> letterSpacing d = Some ''0px''))"

text \<open>A canvas with everything forgotten that a renderer sets before it uses it: fill
  and stroke colour, font, line width, the saved states, the path, and what was painted
  before.\<close>

definition bare :: "canvas \<Rightarrow> canvas" where
  "bare c =
     \<lparr>cur = (cur c)\<lparr>fillStyle := '''', strokeStyle := '''', font := '''', lineWidth := 0\<rparr>,
      stack = [], path = [], painted = []\<rparr>"

text \<open>A block of drawing code is self-contained when, from a standard state, it paints
  the same calls whatever the forgotten parts were, after what was painted before, and
  leaves the rest of the state as it found it.\<close>

definition good :: "(canvas \<Rightarrow> canvas) \<Rightarrow> bool" where
  "good f = (\<forall>c. std (cur c) \<longrightarrow>
     painted (f c) = painted c @ painted (f (bare c)) \<and> bare (f c) = bare c)"

text \<open>The opaque fills with which the renderers begin: the whole surface in paper
  colour; for \<open>cta\<close> in the dark colour; for \<open>cover\<close> three bands side by side.\<close>

definition paper_fill :: "paint list" where
  "paper_fill = [Fill_Rect C_paper 1 0 0 C_slide C_slide]"

definition dark_fill :: "paint list" where
  "dark_fill = [Fill_Rect C_dark 1 0 0 C_slide C_slide]"

definition cover_bands :: "paint list" where
  "cover_bands =
     [Fill_Rect C_dark 1 0 0 C_coverBandL C_slide,
      Fill_Rect C_paper 1 C_coverBandL 0 C_coverChannelW C_slide,
      Fill_Rect C_dark 1 C_coverBandR 0 (C_slide - C_coverBandR) C_slide]"

text \<open>The first paints of the renderer registered under a template name.\<close>

definition background :: "string \<Rightarrow> paint list" where
  "background tmpl =
     (if tmpl = ''cover'' then cover_bands
      else if tmpl = ''cta'' then dark_fill else paper_fill)"

text \<open>A renderer overpaints with \<open>B\<close> when it is self-contained and, from a standard
  state, the calls it paints begin with \<open>B\<close>.\<close>

definition overpaints :: "paint list \<Rightarrow> (canvas \<Rightarrow> canvas) \<Rightarrow> bool" where
  "overpaints B f =
     (good f \<and> (\<forall>c. std (cur c) \<longrightarrow> (\<exists>rest. painted (f (bare c)) = B @ rest)))"

section \<open>Properties of the editor's slide list\<close>

lemma ends_ok_sequence: "initFromSequence k = Inr s \<Longrightarrow> ends_ok s"
  by (auto simp: initFromSequence_def SEQUENCES_def ends_ok_def is_locked_def split: if_splits)

lemma ends_ok_custom: "ends_ok initCustom"
  by (simp add: initCustom_def ends_ok_def is_locked_def)

lemma slide_at_Some: "slide_at s i = Some sl \<longleftrightarrow> (0 \<le> i \<and> nat i < length s \<and> sl = s ! nat i)"
  by (auto simp: slide_at_def)

lemma unlocked_interior:
  assumes "ends_ok s" "slide_at s i = Some sl" "\<not> is_locked sl"
  shows "0 < nat i \<and> nat i < length s - 1 \<and> 0 \<le> i"
proof -
  from assms(2) have i: "0 \<le> i" "nat i < length s" "sl = s ! nat i"
    by (auto simp: slide_at_Some)
  from assms(1) have ne: "s \<noteq> []" by (auto simp: ends_ok_def)
  have "nat i \<noteq> 0" using assms i ne by (auto simp: ends_ok_def hd_conv_nth)
  moreover have "nat i \<noteq> length s - 1" using assms i ne by (auto simp: ends_ok_def last_conv_nth)
  ultimately show ?thesis using i by linarith
qed

lemma ends_ok_insert:
  assumes "ends_ok s" "0 < k" "k < length s"
  shows "ends_ok (take k s @ [x] @ drop k s)"
  using assms by (auto simp: ends_ok_def hd_append)

lemma ends_ok_addSlide:
  assumes "ends_ok s" "0 \<le> i" "nat i < length s - 1"
  shows "ends_ok (addSlide i s)"
  using assms by (auto simp: addSlide_def splice_insert_def Let_def min_def intro!: ends_ok_insert[simplified])

lemma ends_ok_add_foot: "ends_ok s \<Longrightarrow> ends_ok (addSlide (int (length s) - 2) s)"
  by (rule ends_ok_addSlide) (auto simp: ends_ok_def)

lemma ends_ok_add_after:
  "ends_ok s \<Longrightarrow> slide_at s i = Some sl \<Longrightarrow> \<not> is_locked sl \<Longrightarrow> ends_ok (addSlide i s)"
  using unlocked_interior[of s i sl] by (auto intro: ends_ok_addSlide)

lemma ends_ok_delete:
  assumes "ends_ok s" "0 < k" "k < length s - 1"
  shows "ends_ok (take k s @ drop (k + 1) s)"
  using assms by (auto simp: ends_ok_def hd_append)

lemma ends_ok_removeSlide:
  assumes "ends_ok s" "removeSlide i s = Inr s'"
  shows "ends_ok s'"
proof (cases "length s \<le> 6")
  case True
  with assms show ?thesis by (simp add: removeSlide_def)
next
  case False
  with assms(2) obtain sl where sl: "slide_at s i = Some sl"
    by (auto simp: removeSlide_def split: option.splits)
  show ?thesis
  proof (cases "is_locked sl")
    case True
    with assms sl False show ?thesis by (simp add: removeSlide_def)
  next
    case unl: False
    from unlocked_interior[OF assms(1) sl unl] have "0 < nat i" "nat i < length s - 1" by auto
    from ends_ok_delete[OF assms(1) this]
    show ?thesis using assms(2) sl unl False by (simp add: removeSlide_def)
  qed
qed

lemma ends_ok_update:
  assumes "ends_ok s" "0 < k" "k < length s - 1"
  shows "ends_ok (s[k := x])"
proof -
  from assms have ne: "s \<noteq> []" "s[k := x] \<noteq> []" by (auto simp: ends_ok_def)
  have h: "hd (s[k := x]) = hd s" using assms ne by (simp add: hd_conv_nth)
  have l: "last (s[k := x]) = last s" using assms ne by (simp add: last_conv_nth)
  show ?thesis using assms(1) h l by (simp add: ends_ok_def)
qed

lemma ends_ok_moveSlide:
  assumes "ends_ok s" "moveSlide i d s = Inr s'"
  shows "ends_ok s'"
proof (cases "i + d \<le> 0 \<or> i + d \<ge> int (length s) - 1")
  case True
  with assms show ?thesis by (auto simp: moveSlide_def Let_def)
next
  case False
  with assms(2) obtain sl where sl: "slide_at s i = Some sl"
    by (auto simp: moveSlide_def Let_def split: option.splits)
  show ?thesis
  proof (cases "is_locked sl")
    case True
    with assms sl False show ?thesis by (auto simp: moveSlide_def Let_def)
  next
    case unl: False
    from unlocked_interior[OF assms(1) sl unl] have i: "0 < nat i" "nat i < length s - 1" by auto
    from False have t: "0 < nat (i + d)" "nat (i + d) < length s - 1" by auto
    have "ends_ok (s[nat i := s ! nat (i + d)])" by (rule ends_ok_update[OF assms(1) i])
    then have "ends_ok (s[nat i := s ! nat (i + d), nat (i + d) := sl])"
      by (rule ends_ok_update) (use t in auto)
    then show ?thesis using assms(2) sl unl False by (auto simp: moveSlide_def Let_def)
  qed
qed

lemma dense_changeTemplate:
  assumes "slide_at s i = Some sl"
  shows "dense (changeTemplate i t s) = Some (s[nat i := sl\<lparr>template := t, data := Map.empty\<rparr>])"
proof -
  from assms have i: "0 \<le> i" "i < int (length s)" "nat i < length s"
    by (auto simp: slide_at_Some)
  have n: "None \<notin> set ((map Some s)[nat i := Some x])" for x :: slide
    by (auto dest!: set_update_subset_insert[THEN subsetD])
  have r: "changeTemplate i t s =
      \<lparr>elements = (map Some s)[nat i := Some (sl\<lparr>template := t, data := Map.empty\<rparr>)],
       others = []\<rparr>"
    using assms i by (simp add: changeTemplate_def Let_def)
  show ?thesis
    unfolding r dense_def using n by (simp add: map_update)
qed

lemma ends_ok_changeTemplate:
  assumes "ends_ok s" "slide_at s i = Some sl" "\<not> is_locked sl"
    "dense (changeTemplate i t s) = Some s'"
  shows "ends_ok s'"
proof -
  from unlocked_interior[OF assms(1-3)] have i: "0 < nat i" "nat i < length s - 1" by auto
  from assms(4) have "s' = s[nat i := sl\<lparr>template := t, data := Map.empty\<rparr>]"
    by (simp add: dense_changeTemplate[OF assms(2)])
  then show ?thesis using ends_ok_update[OF assms(1) i] by simp
qed

lemma editor_reach_ends_ok: "editor_reach s \<Longrightarrow> ends_ok s"
proof (induction rule: editor_reach.induct)
  case (from_sequence k s)
  then show ?case by (rule ends_ok_sequence)
next
  case from_custom
  show ?case by (rule ends_ok_custom)
next
  case (add_foot s)
  then show ?case by (simp add: ends_ok_add_foot)
next
  case (add_after s i sl)
  then show ?case by (simp add: ends_ok_add_after)
next
  case (remove s i s')
  then show ?case by (simp add: ends_ok_removeSlide)
next
  case (move s i d s')
  then show ?case by (simp add: ends_ok_moveSlide)
next
  case (change s i sl t s')
  then show ?case by (simp add: ends_ok_changeTemplate)
qed

text \<open>
  Claim C4, as stated, for the operations with only their internal guards: position 0
  always holds the cover template and the final position the cta template. It fails:
  \<open>changeTemplate\<close> has no guard of its own, and on the custom skeleton
  \<open>changeTemplate(0, "single")\<close> replaces the cover.
\<close>

theorem carousel_ends_counterexample:
  "template (hd (the (dense (changeTemplate 0 ''single'' initCustom)))) \<noteq> ''cover''"
  by (simp add: changeTemplate_def Let_def dense_def slide_at_def initCustom_def)

text \<open>
  Claim C4, amended: starting from any sequence blueprint or from the custom skeleton,
  after any sequence of the calls the editor issues (\<open>addSlide\<close> after
  \<open>slides.length - 2\<close> or after a slide that is not locked; \<open>removeSlide\<close> and
  \<open>moveSlide\<close> with any arguments, past their own guards; \<open>changeTemplate\<close> on a slide
  that is not locked with a template other than cover and cta), the slide at position 0
  has the cover template and the slide at the final position has the cta template.
\<close>

theorem carousel_ends_editor:
  "editor_reach s \<Longrightarrow> template (hd s) = ''cover'' \<and> template (last s) = ''cta''"
  by (drule editor_reach_ends_ok) (simp add: ends_ok_def)

theorem carousel_ends_editor_witness:
  "editor_reach (addSlide 1 initCustom) \<and>
   template (hd (addSlide 1 initCustom)) = ''cover'' \<and>
   template (last (addSlide 1 initCustom)) = ''cta''"
proof -
  have r: "editor_reach (addSlide 1 initCustom)"
    by (rule editor_reach.add_after[OF editor_reach.from_custom, where sl = "initCustom ! 1"])
       (simp_all add: slide_at_def initCustom_def is_locked_def)
  from carousel_ends_editor[OF r] r show ?thesis by simp
qed

text \<open>
  Claim C5: with no export in progress, an export request made through the editor's
  export button is accepted if and only if the slide count lies in [6, 12]; the engine
  itself (\<open>handleExport\<close>, \<open>exportPDF\<close>) checks nothing. Lists of 5 and 13 slides are
  rejected, lists of 6 and 12 slides are accepted.
\<close>

theorem export_gate:
  "request_export False slides =
     (if 6 \<le> length slides \<and> length slides \<le> 12 then Accepted slides else Rejected)
   \<and> request_export False (replicate 5 s) = Rejected
   \<and> request_export False (replicate 6 s) = Accepted (replicate 6 s)
   \<and> request_export False (replicate 13 s) = Rejected
   \<and> request_export False (replicate 12 s) = Accepted (replicate 12 s)"
  by (auto simp: request_export_def export_disabled_def)

text \<open>
  Claim C10: for every slide list, every index \<open>i\<close> and every new template,
  \<open>changeTemplate\<close> leaves at \<open>i\<close> an object with the new template and the empty
  field-value record whose lock flag and annotation are those slide \<open>i\<close> had (absent
  where there was no slide \<open>i\<close>), and what stands at every other index is what stood
  there before. For an index of the list the result is again a list of slides, of the
  same length.
\<close>

theorem changeTemplate_frame:
  "array_get (changeTemplate i t slides) i =
     Some \<lparr>template = t,
           locked = (case slide_at slides i of Some s \<Rightarrow> locked s | None \<Rightarrow> None),
           slide_note = (case slide_at slides i of Some s \<Rightarrow> slide_note s | None \<Rightarrow> None),
           data = Map.empty\<rparr>
   \<and> (\<forall>j. j \<noteq> i \<longrightarrow> array_get (changeTemplate i t slides) j = slide_at slides j)
   \<and> (0 \<le> i \<and> i < int (length slides) \<longrightarrow>
        (\<exists>s'. dense (changeTemplate i t slides) = Some s' \<and> length s' = length slides))"
proof -
  consider (inside) "0 \<le> i" "i < int (length slides)"
    | (beyond) "int (length slides) \<le> i" "i < 4294967295"
    | (other) "i < 0 \<or> 4294967295 \<le> i" "\<not> (0 \<le> i \<and> i < int (length slides))"
    by linarith
  then show ?thesis
  proof cases
    case inside
    then have at: "slide_at slides i = Some (slides ! nat i)" by (simp add: slide_at_def)
    have r: "changeTemplate i t slides =
        \<lparr>elements = (map Some slides)[nat i := Some ((slides ! nat i)\<lparr>template := t, data := Map.empty\<rparr>)],
         others = []\<rparr>"
      using inside by (simp add: changeTemplate_def Let_def at)
    have a: "array_get (changeTemplate i t slides) i =
        Some ((slides ! nat i)\<lparr>template := t, data := Map.empty\<rparr>)"
      using inside unfolding r by (simp add: array_get_def)
    have b: "array_get (changeTemplate i t slides) j = slide_at slides j" if "j \<noteq> i" for j
      using inside that unfolding r by (auto simp: array_get_def slide_at_def nat_eq_iff)
    from dense_changeTemplate[OF at, of t] a b at show ?thesis by simp
  next
    case beyond
    then have at: "slide_at slides i = None" by (simp add: slide_at_def)
    define k where "k = nat i - length slides"
    have ni: "nat i = length slides + k" using beyond by (simp add: k_def)
    then have ii: "i = int (length slides) + int k" using beyond by linarith
    have r: "changeTemplate i t slides =
        \<lparr>elements = map Some slides @ replicate k None @
            [Some \<lparr>template = t, locked = None, slide_note = None, data = Map.empty\<rparr>],
         others = []\<rparr>"
      using beyond by (simp add: changeTemplate_def Let_def at k_def)
    have a: "array_get (changeTemplate i t slides) i =
        Some \<lparr>template = t, locked = None, slide_note = None, data = Map.empty\<rparr>"
      unfolding r by (simp add: array_get_def ii nat_int_add nth_append)
    have b: "array_get (changeTemplate i t slides) j = slide_at slides j" if "j \<noteq> i" for j
    proof (cases "0 \<le> j \<and> j < int (length slides) + int k + 1")
      case True
      then have "nat j < length slides \<or> (length slides \<le> nat j \<and> nat j - length slides < k)"
        using that ii by linarith
      then show ?thesis
        using True unfolding r by (auto simp: array_get_def slide_at_def nth_append)
    next
      case False
      then show ?thesis unfolding r by (auto simp: array_get_def slide_at_def)
    qed
    from a b at beyond show ?thesis by simp
  next
    case other
    then have at: "slide_at slides i = None" by (simp add: slide_at_def)
    have r: "changeTemplate i t slides =
        \<lparr>elements = map Some slides,
         others = [(i, \<lparr>template = t, locked = None, slide_note = None, data = Map.empty\<rparr>)]\<rparr>"
      using other by (auto simp: changeTemplate_def Let_def at)
    have a: "array_get (changeTemplate i t slides) i =
        Some \<lparr>template = t, locked = None, slide_note = None, data = Map.empty\<rparr>"
      using other unfolding r by (auto simp: array_get_def)
    have b: "array_get (changeTemplate i t slides) j = slide_at slides j" if "j \<noteq> i" for j
      using that unfolding r by (auto simp: array_get_def slide_at_def)
    from a b at other show ?thesis by auto
  qed
qed

theorem changeTemplate_frame_witness:
  "array_get (changeTemplate 1 ''quote''
       [\<lparr>template = ''cover'', locked = Some True, slide_note = Some ''a'', data = Map.empty\<rparr>,
        \<lparr>template = ''single'', locked = Some False, slide_note = Some ''b'',
          data = [''headline'' \<mapsto> ''Hi'']\<rparr>,
        \<lparr>template = ''cta'', locked = Some True, slide_note = Some ''c'', data = Map.empty\<rparr>]) 1
     = Some \<lparr>template = ''quote'', locked = Some False, slide_note = Some ''b'',
             data = Map.empty\<rparr>
   \<and> array_get (changeTemplate 1 ''quote''
       [\<lparr>template = ''cover'', locked = Some True, slide_note = Some ''a'', data = Map.empty\<rparr>,
        \<lparr>template = ''single'', locked = Some False, slide_note = Some ''b'',
          data = [''headline'' \<mapsto> ''Hi'']\<rparr>,
        \<lparr>template = ''cta'', locked = Some True, slide_note = Some ''c'', data = Map.empty\<rparr>]) 0
     = Some \<lparr>template = ''cover'', locked = Some True, slide_note = Some ''a'',
             data = Map.empty\<rparr>
   \<and> array_get (changeTemplate 3 ''quote'' initCustom) 3
     = Some \<lparr>template = ''quote'', locked = None, slide_note = None, data = Map.empty\<rparr>
   \<and> array_get (changeTemplate 3 ''quote'' initCustom) 2 = Some (initCustom ! 2)
   \<and> length (elements (changeTemplate 3 ''quote'' initCustom)) = 4"
proof -
  let ?s = "[\<lparr>template = ''cover'', locked = Some True, slide_note = Some ''a'', data = Map.empty\<rparr>,
        \<lparr>template = ''single'', locked = Some False, slide_note = Some ''b'',
          data = [''headline'' \<mapsto> ''Hi'']\<rparr>,
        \<lparr>template = ''cta'', locked = Some True, slide_note = Some ''c'', data = Map.empty\<rparr>]"
  have l: "length (elements (changeTemplate 3 ''quote'' initCustom)) = 4"
    by (simp add: changeTemplate_def Let_def initCustom_def slide_at_def)
  from changeTemplate_frame[of 1 "''quote''" ?s] changeTemplate_frame[of 3 "''quote''" initCustom] l
  show ?thesis by (simp add: slide_at_def initCustom_def)
qed
section \<open>Properties of \<open>wrapText\<close>\<close>

lemma is_ws_space: "is_ws CHR '' ''"
  by (simp add: is_ws_def)

lemma set_trim_subset: "set (trim s) \<subseteq> set s"
proof -
  have "set (trim s) = set (dropWhile is_ws (rev (dropWhile is_ws s)))" by (simp add: trim_def)
  also have "\<dots> \<subseteq> set (rev (dropWhile is_ws s))" by (rule set_dropWhileD[THEN subsetI])
  also have "\<dots> \<subseteq> set s" using set_dropWhileD by fastforce
  finally show ?thesis .
qed

lemma length_trim_le: "length (trim s) \<le> length s"
proof -
  have "length (trim s) \<le> length (dropWhile is_ws s)"
    by (simp add: trim_def length_dropWhile_le[of is_ws "rev (dropWhile is_ws s)", simplified])
  also have "\<dots> \<le> length s" by (rule length_dropWhile_le)
  finally show ?thesis .
qed

lemma trim_Nil: "trim [] = []"
  by (simp add: trim_def)

lemma trim_all_ws: "\<forall>c \<in> set s. is_ws c \<Longrightarrow> trim s = []"
proof -
  assume "\<forall>c \<in> set s. is_ws c"
  then have d: "dropWhile is_ws s = []" by (simp add: dropWhile_eq_Nil_conv)
  show ?thesis unfolding trim_def d by simp
qed

lemma trim_append_space: "trim (s @ '' '') = trim s"
proof (cases "\<forall>c \<in> set s. is_ws c")
  case True
  then have "trim s = []" by (rule trim_all_ws)
  moreover from True have "trim (s @ '' '') = []" by (intro trim_all_ws) (simp add: is_ws_space)
  ultimately show ?thesis by simp
next
  case False
  then obtain x where "x \<in> set s" "\<not> is_ws x" by blast
  then have "dropWhile is_ws (s @ '' '') = dropWhile is_ws s @ '' ''"
    by (simp add: dropWhile_append1)
  then show ?thesis unfolding trim_def by (simp add: is_ws_space)
qed

lemma split_on_nonempty: "split_on c s \<noteq> []"
  by (induction s) auto

lemma split_on_no_sep: "w \<in> set (split_on c s) \<Longrightarrow> c \<notin> set w"
proof (induction s arbitrary: w)
  case Nil
  then show ?case by simp
next
  case (Cons x xs)
  show ?case
  proof (cases "x = c")
    case True
    with Cons show ?thesis by auto
  next
    case False
    from split_on_nonempty[of c xs] obtain h t where ht: "split_on c xs = h # t"
      by (cases "split_on c xs") auto
    with Cons.prems False have "w = x # h \<or> w \<in> set t" by simp
    then show ?thesis
    proof
      assume "w = x # h"
      moreover have "c \<notin> set h" using Cons.IH[of h] ht by simp
      ultimately show ?thesis using False by auto
    next
      assume "w \<in> set t"
      then show ?thesis using Cons.IH[of w] ht by simp
    qed
  qed
qed

lemma building_ok_trim:
  assumes mono: "\<And>s. m (trim s) \<le> m s"
    and T: "\<And>w. w \<in> T \<Longrightarrow> CHR '' '' \<notin> set w"
    and b: "building_ok m W T line"
  shows "trim line = [] \<or> line_ok m W T (trim line)"
proof -
  from b consider "line = []" | "m line \<le> W" | w where "w \<in> T" "line = w @ '' ''"
    by (auto simp: building_ok_def)
  then show ?thesis
  proof cases
    case 1
    then show ?thesis by (simp add: trim_Nil)
  next
    case 2
    with mono[of line] have "m (trim line) \<le> W" by linarith
    then show ?thesis by (simp add: line_ok_def)
  next
    case 3
    then have tl: "trim line = trim w" by (simp add: trim_append_space)
    have nosp: "CHR '' '' \<notin> set (trim w)" using T[OF 3(1)] set_trim_subset[of w] by blast
    have "W < m (trim w) \<Longrightarrow> W < m w" using mono[of w] by linarith
    with nosp 3(1) have "line_ok m W T (trim w)" by (auto simp: line_ok_def)
    with tl show ?thesis by simp
  qed
qed

lemma wrap_words_ok:
  assumes mono: "\<And>s. m (trim s) \<le> m s"
    and T: "\<And>w. w \<in> T \<Longrightarrow> CHR '' '' \<notin> set w"
  shows "set ws \<subseteq> T \<Longrightarrow> building_ok m W T line
     \<Longrightarrow> \<forall>l \<in> set lines. l = [] \<or> line_ok m W T l
     \<Longrightarrow> wrap_words m W ws line lines = (line', lines')
     \<Longrightarrow> building_ok m W T line' \<and> (\<forall>l \<in> set lines'. l = [] \<or> line_ok m W T l)"
proof (induction ws arbitrary: line lines)
  case Nil
  then show ?case by simp
next
  case (Cons word ws)
  let ?test = "line @ word @ '' ''"
  from Cons.prems(1) have wT: "word \<in> T" and wsT: "set ws \<subseteq> T" by auto
  show ?case
  proof (cases "m ?test > W \<and> line \<noteq> []")
    case True
    have b: "building_ok m W T (word @ '' '')" using wT by (auto simp: building_ok_def)
    have l: "\<forall>l \<in> set (lines @ [trim line]). l = [] \<or> line_ok m W T l"
      using Cons.prems(3) building_ok_trim[OF mono T Cons.prems(2)] by auto
    from Cons.prems(4) True
    have "wrap_words m W ws (word @ '' '') (lines @ [trim line]) = (line', lines')"
      by (simp add: Let_def)
    from Cons.IH[OF wsT b l this] show ?thesis .
  next
    case False
    have b: "building_ok m W T ?test"
    proof (cases "line = []")
      case True
      then show ?thesis using wT by (auto simp: building_ok_def)
    next
      case nonempty: False
      with False have "m ?test \<le> W" by auto
      then show ?thesis by (simp add: building_ok_def)
    qed
    from Cons.prems(4) False
    have "wrap_words m W ws ?test lines = (line', lines')"
      by (auto simp: Let_def)
    from Cons.IH[OF wsT b Cons.prems(3) this] show ?thesis .
  qed
qed

lemma wrap_paragraphs_ok:
  assumes mono: "\<And>s. m (trim s) \<le> m s"
    and T: "\<And>w. w \<in> T \<Longrightarrow> CHR '' '' \<notin> set w"
  shows "(\<Union>p \<in> set ps. set (split_on CHR '' '' p)) \<subseteq> T
     \<Longrightarrow> \<forall>l \<in> set lines. l = [] \<or> line_ok m W T l
     \<Longrightarrow> \<forall>l \<in> set (wrap_paragraphs m W ps lines). l = [] \<or> line_ok m W T l"
proof (induction ps arbitrary: lines)
  case Nil
  then show ?case by simp
next
  case (Cons p ps)
  from Cons.prems(1) have pT: "set (split_on CHR '' '' p) \<subseteq> T"
    and psT: "(\<Union>p \<in> set ps. set (split_on CHR '' '' p)) \<subseteq> T" by auto
  show ?case
  proof (cases "trim p = []")
    case True
    have "\<forall>l \<in> set (lines @ ['''']). l = [] \<or> line_ok m W T l" using Cons.prems(2) by auto
    from Cons.IH[OF psT this] True show ?thesis by simp
  next
    case False
    obtain line' lines' where w: "wrap_words m W (split_on CHR '' '' p) [] lines = (line', lines')"
      by (cases "wrap_words m W (split_on CHR '' '' p) [] lines") auto
    have b0: "building_ok m W T []" by (simp add: building_ok_def)
    from wrap_words_ok[OF mono T pT b0 Cons.prems(2) w]
    have b: "building_ok m W T line'" and l: "\<forall>l \<in> set lines'. l = [] \<or> line_ok m W T l"
      by auto
    have "\<forall>l \<in> set (lines' @ [trim line']). l = [] \<or> line_ok m W T l"
      using l building_ok_trim[OF mono T b] by auto
    from Cons.IH[OF psT this] False w show ?thesis by simp
  qed
qed

lemma layout_lines_ok:
  assumes mono: "\<And>s. m (trim s) \<le> m s"
    and l: "l \<in> set (layout_lines m text W)" "l \<noteq> []"
  shows "line_ok m W (set (tokens text)) l"
proof -
  have T: "\<And>w. w \<in> set (tokens text) \<Longrightarrow> CHR '' '' \<notin> set w"
    by (auto simp: tokens_def dest: split_on_no_sep)
  have "\<forall>l \<in> set (wrap_paragraphs m W (split_on CHR 0x0A text) []). l = [] \<or> line_ok m W (set (tokens text)) l"
    by (rule wrap_paragraphs_ok[of m "set (tokens text)", OF mono T]) (auto simp: tokens_def)
  with l show ?thesis by (auto simp: layout_lines_def)
qed

lemma draw_line_apply:
  "draw_line x y lh (i, l) c =
     (if l \<noteq> '''' then c\<lparr>painted := painted c @ [Fill_Text (text_of (cur c)) l x (y + real i * lh)]\<rparr>
      else c)"
  by (simp add: draw_line_def fillText_def put_def)

lemma fold_draw_line:
  "fold (draw_line x y lh) (enumerate k ls) c =
     c\<lparr>painted := painted c @
        map (\<lambda>(i, l). Fill_Text (text_of (cur c)) l x (y + real i * lh))
            (filter (\<lambda>(i, l). l \<noteq> '''') (enumerate k ls))\<rparr>"
proof (induction ls arbitrary: k c)
  case Nil
  show ?case by simp
next
  case (Cons l ls)
  show ?case
    by (simp add: Cons.IH draw_line_apply)
qed

lemma layout_lines_empty: "layout_lines m '''' W = ['''']"
  by (simp add: layout_lines_def trim_Nil)

lemma wrapText_painted:
  "snd (wrapText M text x y W lh c) =
     c\<lparr>painted := painted c @
        map (\<lambda>(i, l). Fill_Text (text_of (cur c)) l x (y + real i * lh))
            (drawn_lines (M (font (cur c))) text W)\<rparr>"
proof (cases "text = ''''")
  case True
  then show ?thesis by (simp add: wrapText_def drawn_lines_def layout_lines_empty)
next
  case False
  then show ?thesis
    by (simp add: wrapText_def Let_def fold_draw_line drawn_lines_def measureText_def[abs_def])
qed

text \<open>
  Claim C1: for every text and every maximum width \<open>W\<close>, every line that \<open>wrapText\<close>
  draws and that has more than one word measures at most \<open>W\<close>; a drawn line measures
  more than \<open>W\<close> only when it is a single word of the text whose own width exceeds \<open>W\<close>,
  and that word is drawn whole. The text-measurement capability is taken to give a
  string without its surrounding white space at most the width of the string: the loop
  measures the line with its trailing space, and draws it trimmed.
\<close>

theorem wrapText_lines_fit:
  assumes "\<And>s. M (font (cur c)) (trim s) \<le> M (font (cur c)) s"
  shows "painted (snd (wrapText M str x y W lh c)) =
           painted c @ map (\<lambda>(i, l). Fill_Text (text_of (cur c)) l x (y + real i * lh))
                           (drawn_lines (M (font (cur c))) str W)
         \<and> (\<forall>(i, l) \<in> set (drawn_lines (M (font (cur c))) str W).
              (CHR '' '' \<in> set l \<longrightarrow> M (font (cur c)) l \<le> W) \<and>
              (W < M (font (cur c)) l \<longrightarrow>
                 (\<exists>w \<in> set (tokens str). l = trim w \<and> W < M (font (cur c)) w)))"
proof -
  have "\<forall>(i, l) \<in> set (drawn_lines (M (font (cur c))) str W).
          line_ok (M (font (cur c))) W (set (tokens str)) l"
  proof (clarify)
    fix i l assume "(i, l) \<in> set (drawn_lines (M (font (cur c))) str W)"
    then have "l \<in> set (layout_lines (M (font (cur c))) str W)" "l \<noteq> []"
      by (auto simp: drawn_lines_def in_set_enumerate_eq)
    then show "line_ok (M (font (cur c))) W (set (tokens str)) l"
      using layout_lines_ok[of "M (font (cur c))"] assms by blast
  qed
  then show ?thesis by (auto simp: wrapText_painted line_ok_def)
qed

theorem wrapText_lines_fit_witness:
  "drawn_lines (fixed_pitch ''10px sans-serif'') ''a b ccccc'' 40 = [(0, ''a b''), (1, ''ccccc'')]
   \<and> fixed_pitch ''10px sans-serif'' ''a b'' \<le> 40
   \<and> 40 < fixed_pitch ''10px sans-serif'' ''ccccc''
   \<and> (\<exists>w \<in> set (tokens ''a b ccccc'').
         ''ccccc'' = trim w \<and> 40 < fixed_pitch ''10px sans-serif'' w)"
proof -
  have mono: "\<And>s. fixed_pitch (font (cur test_canvas)) (trim s)
                  \<le> fixed_pitch (font (cur test_canvas)) s"
    by (simp add: fixed_pitch_def length_trim_le)
  have ev: "drawn_lines (fixed_pitch ''10px sans-serif'') ''a b ccccc'' 40
              = [(0, ''a b''), (1, ''ccccc'')]"
    by (simp add: drawn_lines_def layout_lines_def fixed_pitch_def trim_def is_ws_def)
  have f: "font (cur test_canvas) = ''10px sans-serif''" by (simp add: test_canvas_def)
  from wrapText_lines_fit[where M = fixed_pitch and c = test_canvas and str = "''a b ccccc''"
      and W = 40 and x = 0 and y = 0 and lh = 10, OF mono]
  have all: "\<forall>(i, l) \<in> set (drawn_lines (fixed_pitch ''10px sans-serif'') ''a b ccccc'' 40).
         (CHR '' '' \<in> set l \<longrightarrow> fixed_pitch ''10px sans-serif'' l \<le> 40) \<and>
         (40 < fixed_pitch ''10px sans-serif'' l \<longrightarrow>
            (\<exists>w \<in> set (tokens ''a b ccccc'').
                l = trim w \<and> 40 < fixed_pitch ''10px sans-serif'' w))"
    unfolding f by (rule conjunct2)
  have over: "40 < fixed_pitch ''10px sans-serif'' ''ccccc''" by (simp add: fixed_pitch_def)
  from all have "fixed_pitch ''10px sans-serif'' ''a b'' \<le> 40"
    unfolding ev by simp
  moreover from all over have "\<exists>w \<in> set (tokens ''a b ccccc'').
         ''ccccc'' = trim w \<and> 40 < fixed_pitch ''10px sans-serif'' w"
    unfolding ev by simp
  ultimately show ?thesis using ev over by blast
qed

lemma wrap_words_acc:
  "wrap_words m W ws line lines =
     (fst (wrap_words m W ws line []), lines @ snd (wrap_words m W ws line []))"
proof (induction ws arbitrary: line lines)
  case Nil
  show ?case by simp
next
  case (Cons w ws)
  show ?case
    using Cons.IH[of "w @ '' ''" "lines @ [trim line]"] Cons.IH[of "w @ '' ''" "[trim line]"]
          Cons.IH[of "line @ w @ '' ''" lines]
    by (simp add: Let_def)
qed

lemma wrap_paragraphs_acc:
  "wrap_paragraphs m W ps lines = lines @ concat (map (\<lambda>p. wrap_paragraphs m W [p] []) ps)"
proof (induction ps arbitrary: lines)
  case Nil
  show ?case by simp
next
  case (Cons p ps)
  show ?case
  proof (cases "trim p = []")
    case True
    then show ?thesis using Cons.IH[of "lines @ ['''']"] by simp
  next
    case False
    obtain l1 ls1 where w1: "wrap_words m W (split_on CHR '' '' p) [] [] = (l1, ls1)"
      by (cases "wrap_words m W (split_on CHR '' '' p) [] []") auto
    then have w2: "wrap_words m W (split_on CHR '' '' p) [] lines = (l1, lines @ ls1)"
      using wrap_words_acc[of m W "split_on CHR '' '' p" "[]" lines] by simp
    show ?thesis using False w1 w2 Cons.IH[of "lines @ ls1 @ [trim l1]"] by simp
  qed
qed

lemma wrapText_count:
  "str \<noteq> '''' \<Longrightarrow> fst (wrapText M str x y W lh c) = length (layout_lines (M (font (cur c))) str W)"
  by (simp add: wrapText_def Let_def measureText_def[abs_def])

text \<open>
  Claim C6: \<open>wrapText\<close> splits a non-empty input at the newline characters; the lines
  are the concatenation of what each paragraph yields on its own; a paragraph that is
  empty or only white space yields exactly one blank line, which is counted in the
  returned number of lines and is not drawn. On the string of \<open>a\<close>, two newlines and
  \<open>b\<close> the count is 3 and only \<open>a\<close> and \<open>b\<close> are drawn, at lines 0 and 2.
\<close>

theorem wrapText_blank_paragraphs:
  assumes "str \<noteq> ''''"
  shows "layout_lines (M (font (cur c))) str W =
           concat (map (\<lambda>p. wrap_paragraphs (M (font (cur c))) W [p] []) (split_on CHR 0x0A str))
       \<and> (\<forall>p \<in> set (split_on CHR 0x0A str).
            trim p = '''' \<longrightarrow> wrap_paragraphs (M (font (cur c))) W [p] [] = [''''])
       \<and> fst (wrapText M str x y W lh c) = length (layout_lines (M (font (cur c))) str W)
       \<and> painted (snd (wrapText M str x y W lh c)) =
           painted c @ map (\<lambda>(i, l). Fill_Text (text_of (cur c)) l x (y + real i * lh))
             (filter (\<lambda>(i, l). l \<noteq> '''') (enumerate 0 (layout_lines (M (font (cur c))) str W)))
       \<and> wrapText M [CHR ''a'', CHR 0x0A, CHR 0x0A, CHR ''b''] x y W lh c =
           (3, c\<lparr>painted := painted c @
                   [Fill_Text (text_of (cur c)) ''a'' x y,
                    Fill_Text (text_of (cur c)) ''b'' x (y + 2 * lh)]\<rparr>)"
proof -
  have 1: "layout_lines (M (font (cur c))) str W =
           concat (map (\<lambda>p. wrap_paragraphs (M (font (cur c))) W [p] []) (split_on CHR 0x0A str))"
    unfolding layout_lines_def by (subst wrap_paragraphs_acc) simp
  have 2: "\<forall>p \<in> set (split_on CHR 0x0A str).
            trim p = '''' \<longrightarrow> wrap_paragraphs (M (font (cur c))) W [p] [] = ['''']"
    by simp
  have 3: "fst (wrapText M str x y W lh c) = length (layout_lines (M (font (cur c))) str W)"
    using assms by (rule wrapText_count)
  have 4: "painted (snd (wrapText M str x y W lh c)) =
           painted c @ map (\<lambda>(i, l). Fill_Text (text_of (cur c)) l x (y + real i * lh))
             (filter (\<lambda>(i, l). l \<noteq> '''') (enumerate 0 (layout_lines (M (font (cur c))) str W)))"
    by (simp add: wrapText_painted drawn_lines_def)
  have ex: "layout_lines (M (font (cur c))) [CHR ''a'', CHR 0x0A, CHR 0x0A, CHR ''b''] W
              = [''a'', '''', ''b'']"
    by (simp add: layout_lines_def trim_def is_ws_def)
  have 5: "wrapText M [CHR ''a'', CHR 0x0A, CHR 0x0A, CHR ''b''] x y W lh c =
           (3, c\<lparr>painted := painted c @
                   [Fill_Text (text_of (cur c)) ''a'' x y,
                    Fill_Text (text_of (cur c)) ''b'' x (y + 2 * lh)]\<rparr>)"
    using wrapText_painted[of M "[CHR ''a'', CHR 0x0A, CHR 0x0A, CHR ''b'']" x y W lh c]
          wrapText_count[of "[CHR ''a'', CHR 0x0A, CHR 0x0A, CHR ''b'']" M x y W lh c]
    by (simp add: ex drawn_lines_def prod_eq_iff)
  from 1 2 3 4 5 show ?thesis by blast
qed

theorem wrapText_blank_paragraphs_witness:
  "[CHR ''a'', CHR 0x0A, CHR 0x0A, CHR ''b''] \<noteq> ''''
   \<and> split_on CHR 0x0A [CHR ''a'', CHR 0x0A, CHR 0x0A, CHR ''b''] = [''a'', '''', ''b'']
   \<and> wrap_paragraphs (fixed_pitch ''10px sans-serif'') 40 [''''] [] = ['''']
   \<and> fst (wrapText fixed_pitch [CHR ''a'', CHR 0x0A, CHR 0x0A, CHR ''b''] 0 0 40 10 test_canvas) = 3
   \<and> painted (snd (wrapText fixed_pitch [CHR ''a'', CHR 0x0A, CHR 0x0A, CHR ''b''] 0 0 40 10 test_canvas))
       = [Fill_Text (text_of (cur test_canvas)) ''a'' 0 0,
          Fill_Text (text_of (cur test_canvas)) ''b'' 0 20]"
proof -
  have ne: "[CHR ''a'', CHR 0x0A, CHR 0x0A, CHR ''b''] \<noteq> ''''" by simp
  have sp: "split_on CHR 0x0A [CHR ''a'', CHR 0x0A, CHR 0x0A, CHR ''b''] = [''a'', '''', ''b'']"
    by simp
  have p: "painted test_canvas = []" by (simp add: test_canvas_def)
  have f: "font (cur test_canvas) = ''10px sans-serif''" by (simp add: test_canvas_def)
  from wrapText_blank_paragraphs[OF ne, where M = fixed_pitch and c = test_canvas
       and W = 40 and x = 0 and y = 0 and lh = 10]
  show ?thesis unfolding sp f by (simp add: p trim_Nil)
qed

section \<open>Properties of \<open>drawTextWithEmphasis\<close>\<close>

lemma exec_Nil: "exec [] c = c"
  by (simp add: exec_def)

lemma exec_Cons: "exec (f # fs) c = exec fs (f c)"
  by (simp add: exec_def)

lemma draw_word_apply:
  "draw_word M emphWords (font (cur c)) (fillStyle (cur c)) emphColor ly spW n (wi, w) (cx, c) =
     (cx + emph_word_width M (cur c) emphWords w + (if int wi < int n - 1 then spW else 0),
      c\<lparr>painted := painted c @ emph_word_paints M (cur c) emphWords emphColor ly cx w,
        path := (if clean_word w \<in> set emphWords
                 then [MoveTo cx (ly + 4), LineTo (cx + M (bold_font (font (cur c))) w) (ly + 4)]
                 else path c)\<rparr>)"
  by (simp add: draw_word_def isEmph_def emph_word_width_def emph_word_paints_def
      exec_Nil exec_Cons Let_def measureText_def fillText_def put_def set_font_def
      set_fillStyle_def save_def restore_def set_strokeStyle_def set_lineWidth_def
      beginPath_def moveTo_def lineTo_def stroke_def text_of_def stroke_of_def)

lemma fold_draw_word:
  "k + length ws = n \<Longrightarrow>
   (let r = fold (draw_word M emphWords (font (cur c)) (fillStyle (cur c)) emphColor ly
                    (M (font (cur c)) '' '') n) (enumerate k ws) (cx, c)
    in painted (snd r) = painted c @ emph_line_paints M (cur c) emphWords emphColor ly cx ws
       \<and> cur (snd r) = cur c \<and> stack (snd r) = stack c)"
proof (induction ws arbitrary: k cx c)
  case Nil
  show ?case by simp
next
  case (Cons w ws)
  let ?c1 = "c\<lparr>painted := painted c @ emph_word_paints M (cur c) emphWords emphColor ly cx w,
        path := (if clean_word w \<in> set emphWords
                 then [MoveTo cx (ly + 4), LineTo (cx + M (bold_font (font (cur c))) w) (ly + 4)]
                 else path c)\<rparr>"
  let ?cx1 = "cx + emph_word_width M (cur c) emphWords w +
              (if int k < int n - 1 then M (font (cur c)) '' '' else 0)"
  have cur1: "cur ?c1 = cur c" and st1: "stack ?c1 = stack c"
    and p1: "painted ?c1 = painted c @ emph_word_paints M (cur c) emphWords emphColor ly cx w"
    by simp_all
  from Cons.prems have k1: "Suc k + length ws = n" by simp
  have sp: "(int k < int n - 1) = (ws \<noteq> [])" using Cons.prems by (cases ws) auto
  note IH = Cons.IH[OF k1, of ?c1 ?cx1, unfolded cur1 st1 p1 Let_def]
  show ?case
    unfolding Let_def
    using IH by (simp add: draw_word_apply sp)
qed

lemma draw_emph_line_apply:
  "(let c' = draw_emph_line M emphWords (font (cur c)) (fillStyle (cur c)) emphColor x y lh (i, l) c
    in painted c' = painted c @
         (if l = '''' then []
          else emph_line_paints M (cur c) emphWords emphColor (y + real i * lh) x
                 (split_on CHR '' '' l))
       \<and> cur c' = cur c \<and> stack c' = stack c)"
proof (cases "l = ''''")
  case True
  then show ?thesis by (simp add: draw_emph_line_def)
next
  case False
  from fold_draw_word[of 0 "split_on CHR '' '' l" "length (split_on CHR '' '' l)" M emphWords c
        emphColor "y + real i * lh" x]
  show ?thesis using False by (simp add: draw_emph_line_def Let_def measureText_def)
qed

lemma fold_draw_emph_line:
  "(let c' = fold (draw_emph_line M emphWords (font (cur c)) (fillStyle (cur c)) emphColor x y lh)
               (enumerate k ls) c
    in painted c' = painted c @
         concat (map (\<lambda>(i, l). emph_line_paints M (cur c) emphWords emphColor
                                 (y + real i * lh) x (split_on CHR '' '' l))
                     (filter (\<lambda>(i, l). l \<noteq> '''') (enumerate k ls)))
       \<and> cur c' = cur c \<and> stack c' = stack c)"
proof (induction ls arbitrary: k c)
  case Nil
  show ?case by simp
next
  case (Cons l ls)
  let ?c1 = "draw_emph_line M emphWords (font (cur c)) (fillStyle (cur c)) emphColor x y lh (k, l) c"
  from draw_emph_line_apply[of M emphWords c emphColor x y lh k l]
  have p1: "painted ?c1 = painted c @
         (if l = '''' then []
          else emph_line_paints M (cur c) emphWords emphColor (y + real k * lh) x
                 (split_on CHR '' '' l))"
    and cur1: "cur ?c1 = cur c" and st1: "stack ?c1 = stack c"
    by (simp_all add: Let_def)
  note IH = Cons.IH[of ?c1 "Suc k", unfolded cur1 st1 p1 Let_def]
  show ?case unfolding Let_def using IH by simp
qed

text \<open>
  Claim C3, as stated, has a word emphasised exactly when its lowercase form with
  leading and trailing punctuation stripped equals a sub-word of the phrase. The code
  removes the punctuation characters everywhere in the word: with the text
  \<open>dont don't\<close> and the phrase \<open>dont\<close>, the word \<open>don't\<close> is emphasised although its
  stripped form \<open>don't\<close> is not a sub-word of the phrase.
\<close>

theorem emphasis_counterexample:
  "''dont don't'' \<noteq> '''' \<and> ''dont'' \<noteq> ''''
   \<and> includes_str (toLowerCase ''dont don't'') (toLowerCase ''dont'')
   \<and> isEmph (split_on CHR '' '' (toLowerCase ''dont'')) ''don't''
   \<and> \<not> spec_matches ''dont'' ''don't''"
  by code_simp

text \<open>
  Claim C3, amended: when the emphasis phrase is non-empty and a case-insensitive
  substring of the text, \<open>drawTextWithEmphasis\<close> paints, word by word, what
  \<open>emph_line_paints\<close> says: a word is emphasised (bold variant of the font, underline 4
  units below the baseline over the word's measured width) if and only if its lowercase
  form with every occurrence of the characters \<open>. , ! ? ; : ' "\<close> removed equals one of
  the phrase's space-delimited lowercase sub-words. The word \<open>Tight-Margins.\<close> matches
  the phrase \<open>tight-margins\<close>; the word \<open>Tight\<close> does not: the test is equality, not
  containment.
\<close>

theorem emphasis_all_punctuation:
  assumes "str \<noteq> ''''" and "phrase \<noteq> ''''"
    and "includes_str (toLowerCase str) (toLowerCase phrase)"
  shows "fst (drawTextWithEmphasis M str phrase x y W lh emphColor c)
           = length (layout_lines (M (font (cur c))) str W)
       \<and> painted (snd (drawTextWithEmphasis M str phrase x y W lh emphColor c)) =
           painted c @
           concat (map (\<lambda>(i, l). emph_line_paints M (cur c)
                                   (split_on CHR '' '' (toLowerCase phrase)) emphColor
                                   (y + real i * lh) x (split_on CHR '' '' l))
                       (drawn_lines (M (font (cur c))) str W))
       \<and> cur (snd (drawTextWithEmphasis M str phrase x y W lh emphColor c)) = cur c
       \<and> clean_word ''Tight-Margins.'' = ''tight-margins''
       \<and> isEmph (split_on CHR '' '' (toLowerCase ''tight-margins'')) ''Tight-Margins.''
       \<and> \<not> isEmph (split_on CHR '' '' (toLowerCase ''tight-margins'')) ''Tight''"
proof -
  from fold_draw_emph_line[of M "split_on CHR '' '' (toLowerCase phrase)" c emphColor x y lh 0
         "layout_lines (M (font (cur c))) str W"]
  have "fst (drawTextWithEmphasis M str phrase x y W lh emphColor c)
           = length (layout_lines (M (font (cur c))) str W)
       \<and> painted (snd (drawTextWithEmphasis M str phrase x y W lh emphColor c)) =
           painted c @
           concat (map (\<lambda>(i, l). emph_line_paints M (cur c)
                                   (split_on CHR '' '' (toLowerCase phrase)) emphColor
                                   (y + real i * lh) x (split_on CHR '' '' l))
                       (drawn_lines (M (font (cur c))) str W))
       \<and> cur (snd (drawTextWithEmphasis M str phrase x y W lh emphColor c)) = cur c"
    using assms
    by (simp add: drawTextWithEmphasis_def Let_def drawn_lines_def measureText_def[abs_def])
  moreover have "clean_word ''Tight-Margins.'' = ''tight-margins''"
    by code_simp
  moreover have "isEmph (split_on CHR '' '' (toLowerCase ''tight-margins'')) ''Tight-Margins.''"
    by code_simp
  moreover have "\<not> isEmph (split_on CHR '' '' (toLowerCase ''tight-margins'')) ''Tight''"
    by code_simp
  ultimately show ?thesis by blast
qed

theorem emphasis_all_punctuation_witness:
  "includes_str (toLowerCase ''a B. c'') (toLowerCase ''b'')
   \<and> painted (snd (drawTextWithEmphasis fixed_pitch ''a B. c'' ''b'' 0 0 1000 10 C_red test_canvas)) =
       [Fill_Text (text_of (cur test_canvas)) ''a'' 0 0,
        Fill_Text ((text_of (cur test_canvas))\<lparr>t_color := C_ink, t_font := ''bold 10px sans-serif''\<rparr>)
          ''B.'' 20 0,
        Stroke_Path ((stroke_of (cur test_canvas))\<lparr>s_color := C_red, s_width := 2\<rparr>)
          [MoveTo 20 4, LineTo 40 4],
        Fill_Text (text_of (cur test_canvas)) ''c'' 50 0]"
proof -
  have h1: "''a B. c'' \<noteq> ''''" by simp
  have h2: "''b'' \<noteq> ''''" by simp
  have h3: "includes_str (toLowerCase ''a B. c'') (toLowerCase ''b'')"
    by code_simp
  have p: "painted test_canvas = []" by (simp add: test_canvas_def)
  have f: "font (cur test_canvas) = ''10px sans-serif''" by (simp add: test_canvas_def)
  have dl: "drawn_lines (fixed_pitch ''10px sans-serif'') ''a B. c'' 1000 = [(0, ''a B. c'')]"
    by (simp add: drawn_lines_def layout_lines_def fixed_pitch_def trim_def is_ws_def)
  have sp: "split_on CHR '' '' ''a B. c'' = [''a'', ''B.'', ''c'']" by simp
  have lw: "split_on CHR '' '' (toLowerCase ''b'') = [''b'']" by code_simp
  have c1: "clean_word ''a'' = ''a''" by code_simp
  have c2: "clean_word ''B.'' = ''b''" by code_simp
  have c3: "clean_word ''c'' = ''c''" by code_simp
  have bf: "bold_font ''10px sans-serif'' = ''bold 10px sans-serif''" by code_simp
  have ev: "concat (map (\<lambda>(i, l). emph_line_paints fixed_pitch (cur test_canvas)
                                   (split_on CHR '' '' (toLowerCase ''b'')) C_red
                                   (0 + real i * 10) 0 (split_on CHR '' '' l))
                       (drawn_lines (fixed_pitch (font (cur test_canvas))) ''a B. c'' 1000)) =
       [Fill_Text (text_of (cur test_canvas)) ''a'' 0 0,
        Fill_Text ((text_of (cur test_canvas))\<lparr>t_color := C_ink, t_font := ''bold 10px sans-serif''\<rparr>)
          ''B.'' 20 0,
        Stroke_Path ((stroke_of (cur test_canvas))\<lparr>s_color := C_red, s_width := 2\<rparr>)
          [MoveTo 20 4, LineTo 40 4],
        Fill_Text (text_of (cur test_canvas)) ''c'' 50 0]"
    unfolding f dl lw
    by (simp add: sp emph_word_paints_def emph_word_width_def c1 c2 c3 f bf fixed_pitch_def)
  from emphasis_all_punctuation[OF h1 h2 h3, where M = fixed_pitch and c = test_canvas
        and x = 0 and y = 0 and W = 1000 and lh = 10 and emphColor = C_red]
  show ?thesis using h3 unfolding ev p by simp
qed

section \<open>Properties of the framework diagrams\<close>

lemma reduce_sum_eq: "reduce_sum xs = sum_list xs"
proof -
  have "fold (\<lambda>b a. a + b) xs s = s + sum_list xs" for s
    by (induction xs arbitrary: s) simp_all
  then show ?thesis by (simp add: reduce_sum_def)
qed

lemma flow_box_apply:
  "flow_box rowY n (i, l, bw) (x, c) =
     (x + bw + 36,
      c\<lparr>painted := painted c @ flow_box_paints (cur c) rowY (int i < int n - 1) l x bw,
        path := (if int i < int n - 1
                 then [MoveTo (x + bw + 32) (rowY + 32), LineTo (x + bw + 26) (rowY + 27),
                       LineTo (x + bw + 26) (rowY + 37), ClosePath]
                 else path c)\<rparr>)"
  by (simp add: flow_box_def flow_box_paints_def exec_Nil exec_Cons Let_def
      fillText_def put_def set_font_def set_fillStyle_def save_def restore_def
      set_strokeStyle_def set_lineWidth_def set_textAlign_def strokeRect_def
      beginPath_def moveTo_def lineTo_def closePath_def stroke_def fill_def
      text_of_def stroke_of_def)

lemma fold_flow_box:
  "k + length row = n \<Longrightarrow>
   (let r = fold (flow_box rowY n) (enumerate k row) (x, c)
    in painted (snd r) = painted c @ boxes_paints (cur c) rowY (flow_row_boxes x row)
       \<and> cur (snd r) = cur c \<and> stack (snd r) = stack c)"
proof (induction row arbitrary: k x c)
  case Nil
  show ?case by simp
next
  case (Cons lb row)
  obtain l bw where lb: "lb = (l, bw)" by (cases lb)
  let ?c1 = "c\<lparr>painted := painted c @ flow_box_paints (cur c) rowY (int k < int n - 1) l x bw,
        path := (if int k < int n - 1
                 then [MoveTo (x + bw + 32) (rowY + 32), LineTo (x + bw + 26) (rowY + 27),
                       LineTo (x + bw + 26) (rowY + 37), ClosePath]
                 else path c)\<rparr>"
  have cur1: "cur ?c1 = cur c" and st1: "stack ?c1 = stack c"
    and p1: "painted ?c1 = painted c @ flow_box_paints (cur c) rowY (int k < int n - 1) l x bw"
    by simp_all
  from Cons.prems have k1: "Suc k + length row = n" by simp
  have ar: "(int k < int n - 1) = (flow_row_boxes (x + bw + 36) row \<noteq> [])"
    using Cons.prems by (cases row) auto
  note IH = Cons.IH[OF k1, of "x + bw + 36" ?c1, unfolded cur1 st1 p1 Let_def]
  show ?case
    unfolding Let_def lb
    using IH by (simp add: flow_box_apply ar)
qed

lemma flow_row_apply:
  "length rw = length row \<Longrightarrow>
   painted (flow_row cx rowY row rw c) =
     painted c @ boxes_paints (cur c) rowY (centred_row cx (zip row rw))
   \<and> cur (flow_row cx rowY row rw c) = cur c \<and> stack (flow_row cx rowY row rw c) = stack c"
  using fold_flow_box[of 0 "zip row rw" "length row" rowY
          "cx - row_total rw / 2" c]
  by (simp add: flow_row_def Let_def centred_row_def row_total_def reduce_sum_eq)

lemma flow_row_boxes_labels: "map fst (flow_row_boxes x row) = map fst row"
  by (induction x row rule: flow_row_boxes.induct) simp_all

lemma flow_row_boxes_span:
  "row \<noteq> [] \<Longrightarrow>
   fst (snd (hd (flow_row_boxes x row))) = x \<and>
   fst (snd (last (flow_row_boxes x row))) + snd (snd (last (flow_row_boxes x row)))
     = x + row_total (map snd row)"
proof (induction x row rule: flow_row_boxes.induct)
  case (1 x)
  then show ?case by simp
next
  case (2 x l bw rest)
  show ?case
  proof (cases "rest = []")
    case True
    then show ?thesis by (simp add: row_total_def)
  next
    case False
    then have ne: "flow_row_boxes (x + bw + 36) rest \<noteq> []" by (cases rest) auto
    from "2.IH"[OF False] ne show ?thesis by (simp add: row_total_def algebra_simps)
  qed
qed

lemma centred_row_centred:
  "row \<noteq> [] \<Longrightarrow>
   cx - fst (snd (hd (centred_row cx row))) =
   fst (snd (last (centred_row cx row))) + snd (snd (last (centred_row cx row))) - cx"
  using flow_row_boxes_span[of row "cx - row_total (map snd row) / 2"]
  by (simp add: centred_row_def)

lemma flow_box_paints_font: "flow_box_paints (d\<lparr>font := f\<rparr>) rowY a l x bw = flow_box_paints d rowY a l x bw"
  by (simp add: flow_box_paints_def stroke_of_def text_of_def)

lemma boxes_paints_font: "boxes_paints (d\<lparr>font := f\<rparr>) rowY bs = boxes_paints d rowY bs"
  by (induction d rowY bs rule: boxes_paints.induct) (simp_all add: flow_box_paints_font)

lemma half_split:
  "length (take (nat \<lceil>real n / 2\<rceil>) (xs :: 'a list)) = nat \<lceil>real n / 2\<rceil>
   \<and> length (drop (nat \<lceil>real n / 2\<rceil>) xs) = nat \<lfloor>real n / 2\<rfloor>" if "length xs = n"
proof -
  have c: "nat \<lceil>real n / 2\<rceil> = (n + 1) div 2" by (simp add: ceiling_divide_eq_div nat_div_distrib) linarith
  have "\<lfloor>real n / real (2::nat)\<rfloor> = int (n div 2)" by (rule floor_divide_of_nat_eq)
  then have f: "nat \<lfloor>real n / 2\<rfloor> = n div 2" by simp
  show ?thesis using that unfolding c f by auto
qed

lemma draw_flow_effect:
  fixes M :: "string \<Rightarrow> string \<Rightarrow> real" and labels :: "string list"
  defines "ws \<equiv> map (\<lambda>l. M labelFont l + 56) labels"
    and "half \<equiv> nat \<lceil>real (length labels) / 2\<rceil>"
  shows "painted (draw_flow M labels contentW cx cy c) =
           painted c @
           (if row_total ws \<le> contentW
            then boxes_paints (cur c) (cy - 32) (centred_row cx (zip labels ws))
            else boxes_paints (cur c) (cy - 50)
                   (centred_row cx (zip (take half labels) (take half ws))) @
                 boxes_paints (cur c) (cy + 54)
                   (centred_row cx (zip (drop half labels) (drop half ws))))
       \<and> cur (draw_flow M labels contentW cx cy c) = (cur c)\<lparr>font := labelFont\<rparr>"
proof -
  let ?c1 = "set_font labelFont c"
  have cur1: "cur ?c1 = (cur c)\<lparr>font := labelFont\<rparr>" and p1: "painted ?c1 = painted c"
    by (simp_all add: set_font_def)
  have ws1: "map (\<lambda>l. measureText M ?c1 l + 28 * 2) labels = ws"
    by (simp add: ws_def measureText_def set_font_def)
  have tot: "reduce_sum ws + real_of_int (int (length labels) - 1) * 36 = row_total ws"
    by (simp add: reduce_sum_eq row_total_def ws_def)
  have lw: "length ws = length labels" by (simp add: ws_def)
  from flow_row_apply[OF lw, of cx "cy - 64 / 2" ?c1]
  have one: "painted (flow_row cx (cy - 64 / 2) labels ws ?c1) =
        painted c @ boxes_paints (cur c) (cy - 32) (centred_row cx (zip labels ws))"
    and cone: "cur (flow_row cx (cy - 64 / 2) labels ws ?c1) = (cur c)\<lparr>font := labelFont\<rparr>"
    by (simp_all add: cur1 p1 boxes_paints_font)
  let ?top = "flow_row cx (cy - 50) (take half labels) (take half ws) ?c1"
  have ltop: "length (take half ws) = length (take half labels)" by (simp add: lw)
  have lbot: "length (drop half ws) = length (drop half labels)" by (simp add: lw)
  from flow_row_apply[OF ltop, of cx "cy - 50" ?c1]
  have top: "painted ?top = painted c @ boxes_paints (cur c) (cy - 50)
                   (centred_row cx (zip (take half labels) (take half ws)))"
    and curtop: "cur ?top = (cur c)\<lparr>font := labelFont\<rparr>"
    by (simp_all add: cur1 p1 boxes_paints_font)
  from flow_row_apply[OF lbot, of cx "cy + 54" ?top]
  have two: "painted (flow_row cx (cy + 54) (drop half labels) (drop half ws) ?top)
      = painted c @ boxes_paints (cur c) (cy - 50)
                   (centred_row cx (zip (take half labels) (take half ws))) @
                 boxes_paints (cur c) (cy + 54)
                   (centred_row cx (zip (drop half labels) (drop half ws)))"
    and ctwo: "cur (flow_row cx (cy + 54) (drop half labels) (drop half ws) ?top)
      = (cur c)\<lparr>font := labelFont\<rparr>"
    by (simp_all add: top curtop boxes_paints_font)
  show ?thesis
  proof (cases "row_total ws \<le> contentW")
    case True
    have "draw_flow M labels contentW cx cy c = flow_row cx (cy - 64 / 2) labels ws ?c1"
      unfolding draw_flow_def Let_def ws1 tot using True by simp
    with one cone True show ?thesis by simp
  next
    case False
    have e: "cy - 50 + 1 * (64 + 40) = cy + 54" "cy - 50 + 0 * (64 + 40) = cy - 50" by simp_all
    have "draw_flow M labels contentW cx cy c =
            flow_row cx (cy + 54) (drop half labels) (drop half ws) ?top"
      unfolding draw_flow_def Let_def ws1 tot e exec_Cons exec_Nil half_def[symmetric]
      using False by simp
    with two ctwo False show ?thesis by simp
  qed
qed

lemma caption_apply:
  "painted (exec [set_fillStyle a, set_font f, fillText str x y] c) =
     painted c @ [Fill_Text ((text_of (cur c))\<lparr>t_color := a, t_font := f\<rparr>) str x y]"
  by (simp add: exec_Cons exec_Nil set_fillStyle_def set_font_def fillText_def put_def
      text_of_def)

lemma caption_after:
  "cur c = d0\<lparr>font := g\<rparr> \<Longrightarrow>
   painted ((if field d ''caption'' = '''' then (\<lambda>c. c)
      else exec [set_fillStyle C_callout, set_font ''500 24px 'Newsreader', Georgia, serif'',
                 fillText (field d ''caption'') C_contentStart (C_slide - 80)]) c) =
     painted c @ caption_paints d0 d"
  by (simp add: caption_apply caption_paints_def text_of_def)

lemma render_framework_flow:
  assumes "parse_labels d \<noteq> []" and "or_else (field d ''diagram_type'') ''flow'' = ''flow''"
  shows "render_framework M d n c =
     (if field d ''caption'' = '''' then (\<lambda>c. c)
      else exec [set_fillStyle C_callout, set_font ''500 24px 'Newsreader', Georgia, serif'',
                 fillText (field d ''caption'') C_contentStart (C_slide - 80)])
       (draw_flow M (parse_labels d) 840 596 (if field d ''caption'' = '''' then 615 else 595)
          (framework_head d n c))"
  using assms by (simp add: render_framework_def framework_head_def Let_def C_defs)

text \<open>
  Claim C2: the framework renderer, with at least one label and the diagram type
  \<open>flow\<close> (the default when the field is empty), paints after its title the flow
  diagram and then the caption. With \<open>ws\<close> the box widths (measured label width plus
  56): if the sum of the widths plus 36 for each gap between consecutive boxes is at
  most the content width \<open>C.contentEnd - C.contentStart\<close>, all boxes are painted as
  one row centred on the content midline 596; otherwise as two rows, the first
  \<open>ceil(n/2)\<close> labels in order in the top row and the remaining \<open>floor(n/2)\<close> in the
  bottom row, each row centred on the midline on its own. In a row the boxes keep the
  order of the labels, every box but the last is followed by an arrow with its head,
  and the left edge of the first box lies as far left of the midline as the right edge
  of the last box lies right of it.
\<close>

theorem flow_layout:
  fixes M :: "string \<Rightarrow> string \<Rightarrow> real" and d :: "string \<rightharpoonup> string"
    and n :: "nat option" and c :: canvas
  defines "labels \<equiv> parse_labels d"
    and "ws \<equiv> map (\<lambda>l. M labelFont l + 56) (parse_labels d)"
    and "half \<equiv> nat \<lceil>real (length (parse_labels d)) / 2\<rceil>"
    and "cy \<equiv> (if field d ''caption'' = '''' then 615 else 595)"
    and "head \<equiv> framework_head d n c"
  assumes ne: "parse_labels d \<noteq> []"
    and ty: "or_else (field d ''diagram_type'') ''flow'' = ''flow''"
  shows "painted (render_framework M d n c) =
           painted head @
           (if row_total ws \<le> C_contentEnd - C_contentStart
            then boxes_paints (cur head) (cy - 32) (centred_row 596 (zip labels ws))
            else boxes_paints (cur head) (cy - 50)
                   (centred_row 596 (zip (take half labels) (take half ws))) @
                 boxes_paints (cur head) (cy + 54)
                   (centred_row 596 (zip (drop half labels) (drop half ws)))) @
           caption_paints (cur head) d
       \<and> C_contentStart + (C_contentEnd - C_contentStart) / 2 = 596
       \<and> length (take half labels) = nat \<lceil>real (length labels) / 2\<rceil>
       \<and> length (drop half labels) = nat \<lfloor>real (length labels) / 2\<rfloor>
       \<and> take half labels @ drop half labels = labels
       \<and> (\<forall>row. row \<noteq> [] \<longrightarrow>
             map fst (centred_row 596 row) = map fst row \<and>
             596 - fst (snd (hd (centred_row 596 row))) =
               fst (snd (last (centred_row 596 row))) + snd (snd (last (centred_row 596 row))) - 596)"
proof -
  have w: "C_contentEnd - C_contentStart = 840" by (simp add: C_defs)
  note fl = draw_flow_effect[of M "parse_labels d" 840 596 cy head,
      folded ws_def half_def labels_def]
  have paint: "painted (render_framework M d n c) =
           painted head @
           (if row_total ws \<le> C_contentEnd - C_contentStart
            then boxes_paints (cur head) (cy - 32) (centred_row 596 (zip labels ws))
            else boxes_paints (cur head) (cy - 50)
                   (centred_row 596 (zip (take half labels) (take half ws))) @
                 boxes_paints (cur head) (cy + 54)
                   (centred_row 596 (zip (drop half labels) (drop half ws)))) @
           caption_paints (cur head) d"
    unfolding render_framework_flow[OF ne ty, of M n c] w
      head_def[symmetric] cy_def[symmetric] labels_def[symmetric]
    using fl by (simp add: caption_after[where ?d0.0 = "cur head" and g = labelFont])
  have mid: "C_contentStart + (C_contentEnd - C_contentStart) / 2 = 596"
    by (simp add: C_defs)
  have cen: "\<forall>row. row \<noteq> [] \<longrightarrow>
             map fst (centred_row 596 row) = map fst row \<and>
             596 - fst (snd (hd (centred_row 596 row))) =
               fst (snd (last (centred_row 596 row))) + snd (snd (last (centred_row 596 row))) - 596"
    using centred_row_centred[where cx = 596] by (simp add: centred_row_def flow_row_boxes_labels)
  from half_split[of labels "length labels"] paint mid cen
  show ?thesis by (simp add: half_def labels_def)
qed

theorem flow_layout_witness:
  "parse_labels [''labels'' \<mapsto> ''a,bb''] = [''a'', ''bb'']
   \<and> painted (render_framework fixed_pitch [''labels'' \<mapsto> ''a,bb''] None test_canvas) =
       painted (framework_head [''labels'' \<mapsto> ''a,bb''] None test_canvas) @
       boxes_paints (cur (framework_head [''labels'' \<mapsto> ''a,bb''] None test_canvas)) 583
         [(''a'', 507, 66), (''bb'', 609, 76)]
   \<and> parse_labels [''labels'' \<mapsto> ''a,b,c'', ''diagram_type'' \<mapsto> ''flow''] = [''a'', ''b'', ''c'']
   \<and> painted (render_framework (\<lambda>f s. 400 * real (length s))
         [''labels'' \<mapsto> ''a,b,c'', ''diagram_type'' \<mapsto> ''flow''] None test_canvas) =
       painted (framework_head [''labels'' \<mapsto> ''a,b,c'', ''diagram_type'' \<mapsto> ''flow'']
                  None test_canvas) @
       boxes_paints (cur (framework_head [''labels'' \<mapsto> ''a,b,c'', ''diagram_type'' \<mapsto> ''flow'']
                            None test_canvas)) 565
         [(''a'', 122, 456), (''b'', 614, 456)] @
       boxes_paints (cur (framework_head [''labels'' \<mapsto> ''a,b,c'', ''diagram_type'' \<mapsto> ''flow'']
                            None test_canvas)) 669
         [(''c'', 368, 456)]"
proof -
  let ?d1 = "[''labels'' \<mapsto> ''a,bb'']"
  let ?d2 = "[''labels'' \<mapsto> ''a,b,c'', ''diagram_type'' \<mapsto> ''flow'']"
  let ?M2 = "\<lambda>(f :: string) (s :: string). 400 * real (length s)"
  have pl1: "parse_labels ?d1 = [''a'', ''bb'']"
    by (simp add: parse_labels_def field_def trim_def is_ws_def)
  have pl2: "parse_labels ?d2 = [''a'', ''b'', ''c'']"
    by (simp add: parse_labels_def field_def trim_def is_ws_def)
  have f1: "field ?d1 ''caption'' = ''''"
    "or_else (field ?d1 ''diagram_type'') ''flow'' = ''flow''"
    by (simp_all add: field_def or_else_def)
  have f2: "field ?d2 ''caption'' = ''''"
    "or_else (field ?d2 ''diagram_type'') ''flow'' = ''flow''"
    by (simp_all add: field_def or_else_def)
  have ne1: "parse_labels ?d1 \<noteq> []" and ne2: "parse_labels ?d2 \<noteq> []"
    by (simp_all add: pl1 pl2)
  have ws1: "map (\<lambda>l. fixed_pitch labelFont l + 56) [''a'', ''bb''] = [66, 76]"
    by (simp add: fixed_pitch_def)
  have ws2: "map (\<lambda>l. ?M2 labelFont l + 56) [''a'', ''b'', ''c''] = [456, 456, 456]"
    by simp
  have t1: "row_total [66, 76] \<le> C_contentEnd - C_contentStart"
    and t2: "\<not> row_total [456, 456, 456] \<le> C_contentEnd - C_contentStart"
    by (simp_all add: row_total_def C_defs)
  have h2: "nat \<lceil>real (length [''a'', ''b'', ''c'']) / 2\<rceil> = 2" by simp
  have r1: "centred_row 596 [(''a'', 66), (''bb'', 76)] = [(''a'', 507, 66), (''bb'', 609, 76)]"
    by (simp add: centred_row_def row_total_def)
  have r2: "centred_row 596 [(''a'', 456), (''b'', 456)] = [(''a'', 122, 456), (''b'', 614, 456)]"
    by (simp add: centred_row_def row_total_def)
  have r3: "centred_row 596 [(''c'', 456)] = [(''c'', 368, 456)]"
    by (simp add: centred_row_def row_total_def)
  have cp1: "caption_paints st ?d1 = []" and cp2: "caption_paints st ?d2 = []" for st
    by (simp_all add: caption_paints_def f1 f2)
  note one = flow_layout[where M = fixed_pitch and d = ?d1 and n = None and c = test_canvas,
      OF ne1 f1(2), THEN conjunct1, unfolded pl1 ws1 f1 cp1]
  note two = flow_layout[where M = ?M2 and d = ?d2 and n = None and c = test_canvas,
      OF ne2 f2(2), THEN conjunct1, unfolded pl2 ws2 h2 f2 cp2]
  have a: "painted (render_framework fixed_pitch ?d1 None test_canvas) =
       painted (framework_head ?d1 None test_canvas) @
       boxes_paints (cur (framework_head ?d1 None test_canvas)) 583
         [(''a'', 507, 66), (''bb'', 609, 76)]"
    using one t1 by (simp add: r1)
  have b: "painted (render_framework ?M2 ?d2 None test_canvas) =
       painted (framework_head ?d2 None test_canvas) @
       boxes_paints (cur (framework_head ?d2 None test_canvas)) 565
         [(''a'', 122, 456), (''b'', 614, 456)] @
       boxes_paints (cur (framework_head ?d2 None test_canvas)) 669
         [(''c'', 368, 456)]"
    using two t2 by (simp add: r2 r3)
  from pl1 a pl2 b show ?thesis by blast
qed

lemma cycle_node_apply:
  "cycle_node cx cy radius nodeR n (i, l) c =
     c\<lparr>painted := painted c @ cycle_node_paints (cur c) cx cy radius nodeR n i l,
       path := [Arc (cx + cos (deg (- 90 + (real i / real n) * 360)) * radius)
                    (cy + sin (deg (- 90 + (real i / real n) * 360)) * radius) nodeR 0 (2 * pi)]\<rparr>"
proof -
  have a: "- pi / 2 + real i / real n * pi * 2 = deg (- 90 + (real i / real n) * 360)"
    by (simp add: deg_def field_simps)
  show ?thesis
    unfolding cycle_node_def cycle_node_paints_def Let_def prod.case a
    by (simp add: exec_Nil exec_Cons fillText_def put_def set_font_def set_fillStyle_def
        save_def restore_def set_strokeStyle_def set_lineWidth_def set_textAlign_def
        beginPath_def arc_def stroke_def fill_def text_of_def stroke_of_def mult.commute)
qed

lemma fold_cycle_node:
  "(let c' = fold (cycle_node cx cy radius nodeR n) (enumerate k ls) c
    in painted c' = painted c @
         concat (map (\<lambda>(i, l). cycle_node_paints (cur c) cx cy radius nodeR n i l)
                     (enumerate k ls))
       \<and> cur c' = cur c \<and> stack c' = stack c)"
proof (induction ls arbitrary: k c)
  case Nil
  show ?case by simp
next
  case (Cons l ls)
  let ?c1 = "cycle_node cx cy radius nodeR n (k, l) c"
  have p1: "painted ?c1 = painted c @ cycle_node_paints (cur c) cx cy radius nodeR n k l"
    and cur1: "cur ?c1 = cur c" and st1: "stack ?c1 = stack c"
    by (simp_all add: cycle_node_apply)
  note IH = Cons.IH[of "Suc k" ?c1, unfolded cur1 st1 p1 Let_def]
  show ?case unfolding Let_def using IH by simp
qed

lemma cycle_node_paints_font:
  "cycle_node_paints (d\<lparr>font := f\<rparr>) cx cy r nr n i l = cycle_node_paints d cx cy r nr n i l"
  by (simp add: cycle_node_paints_def stroke_of_def text_of_def Let_def)

lemma cycle_nodeR_Max:
  assumes "ws \<noteq> []"
  shows "cycle_nodeR ws = max 36 (Max (set ws) / 2 + 16)"
proof (cases ws)
  case Nil
  with assms show ?thesis by simp
next
  case (Cons w ws')
  have "Max (set (w # ws')) = fold max ws' w" by (rule Max.set_eq_fold)
  then show ?thesis unfolding Cons cycle_nodeR_def by (simp only: list.case)
qed

lemma ring_apply:
  "exec [save, set_strokeStyle C_grey, set_lineWidth 1, setLineDash [6, 4],
         beginPath, arc cx cy r 0 (pi * 2), stroke, setLineDash [], restore] c =
     c\<lparr>painted := painted c @ [cycle_ring_paint (cur c) cx cy r],
       path := [Arc cx cy r 0 (2 * pi)]\<rparr>"
  by (simp add: exec_Nil exec_Cons put_def save_def restore_def
        set_strokeStyle_def set_lineWidth_def setLineDash_def beginPath_def arc_def stroke_def
        stroke_of_def cycle_ring_paint_def mult.commute)

lemma draw_cycle_effect:
  assumes "labels \<noteq> []"
  shows "painted (draw_cycle M labels contentW areaH cx cy c) =
           painted c @
           cycle_ring_paint (cur c) cx cy (min contentW areaH * 0.32) #
           concat (map (\<lambda>(i, l). cycle_node_paints (cur c) cx cy (min contentW areaH * 0.32)
                                   (max 36 (Max (set (map (M labelFont) labels)) / 2 + 16))
                                   (length labels) i l)
                       (enumerate 0 labels))
       \<and> cur (draw_cycle M labels contentW areaH cx cy c) = (cur c)\<lparr>font := labelFont\<rparr>"
proof -
  define r where "r = min contentW areaH * 0.32"
  define nodeR where "nodeR = max 36 (Max (set (map (M labelFont) labels)) / 2 + 16)"
  let ?c1 = "set_font labelFont c"
  have m: "(\<lambda>l. measureText M ?c1 l) = M labelFont"
    by (simp add: measureText_def set_font_def fun_eq_iff)
  have nr: "cycle_nodeR (map (\<lambda>l. measureText M ?c1 l) labels) = nodeR"
    unfolding m nodeR_def using assms by (intro cycle_nodeR_Max) simp
  let ?c2 = "?c1\<lparr>painted := painted ?c1 @ [cycle_ring_paint (cur ?c1) cx cy r],
       path := [Arc cx cy r 0 (2 * pi)]\<rparr>"
  have d: "draw_cycle M labels contentW areaH cx cy c =
             fold (cycle_node cx cy r nodeR (length labels)) (enumerate 0 labels) ?c2"
    unfolding draw_cycle_def Let_def r_def[symmetric] nr ring_apply ..
  have rp: "cycle_ring_paint (cur ?c1) cx cy r = cycle_ring_paint (cur c) cx cy r"
    by (simp add: cycle_ring_paint_def stroke_of_def set_font_def)
  have p2: "painted ?c2 = painted c @ [cycle_ring_paint (cur c) cx cy r]"
    unfolding rp[symmetric] by (simp add: set_font_def)
  have cur2: "cur ?c2 = (cur c)\<lparr>font := labelFont\<rparr>" by (simp add: set_font_def)
  have f: "cycle_node_paints (cur ?c2) = cycle_node_paints (cur c)"
    unfolding cur2 by (simp add: fun_eq_iff cycle_node_paints_font)
  note fo = fold_cycle_node[of cx cy r nodeR "length labels" 0 labels ?c2, unfolded Let_def]
  from fo have "painted (fold (cycle_node cx cy r nodeR (length labels)) (enumerate 0 labels) ?c2) =
          painted ?c2 @
          concat (map (\<lambda>(i, l). cycle_node_paints (cur ?c2) cx cy r nodeR (length labels) i l)
                      (enumerate 0 labels))"
    by (rule conjunct1)
  then have p: "painted (draw_cycle M labels contentW areaH cx cy c) =
          painted c @ cycle_ring_paint (cur c) cx cy r #
          concat (map (\<lambda>(i, l). cycle_node_paints (cur c) cx cy r nodeR (length labels) i l)
                      (enumerate 0 labels))"
    unfolding d f p2 by simp
  from fo have "cur (fold (cycle_node cx cy r nodeR (length labels)) (enumerate 0 labels) ?c2)
      = cur ?c2" by blast
  then have q: "cur (draw_cycle M labels contentW areaH cx cy c) = (cur c)\<lparr>font := labelFont\<rparr>"
    unfolding d cur2 .
  from p q show ?thesis unfolding r_def nodeR_def by (rule conjI)
qed

lemma render_framework_cycle:
  assumes "parse_labels d \<noteq> []" and "field d ''diagram_type'' = ''cycle''"
  shows "render_framework M d n c =
     (if field d ''caption'' = '''' then (\<lambda>c. c)
      else exec [set_fillStyle C_callout, set_font ''500 24px 'Newsreader', Georgia, serif'',
                 fillText (field d ''caption'') C_contentStart (C_slide - 80)])
       (draw_cycle M (parse_labels d) 840 (if field d ''caption'' = '''' then 770 else 730) 596
          (if field d ''caption'' = '''' then 615 else 595)
          (framework_head d n c))"
  using assms by (simp add: render_framework_def framework_head_def Let_def C_defs or_else_def)

text \<open>
  Claim C7: the framework renderer, with at least one label and the diagram type
  \<open>cycle\<close>, paints after its title the dashed ring around the diagram centre and then
  the nodes: node \<open>i\<close> of \<open>n\<close> has its centre on the ring at the angle of -90 degrees
  plus \<open>i / n\<close> times 360 degrees around the diagram centre, and every node has the
  same radius, the larger of 36 and half the widest label's measured width plus 16.
\<close>

theorem cycle_layout:
  fixes M :: "string \<Rightarrow> string \<Rightarrow> real" and d :: "string \<rightharpoonup> string"
    and n :: "nat option" and c :: canvas
  defines "labels \<equiv> parse_labels d"
    and "areaH \<equiv> (if field d ''caption'' = '''' then 770 else 730)"
    and "cy \<equiv> (if field d ''caption'' = '''' then 615 else 595)"
    and "head \<equiv> framework_head d n c"
  assumes ne: "parse_labels d \<noteq> []"
    and ty: "field d ''diagram_type'' = ''cycle''"
  shows "painted (render_framework M d n c) =
           painted head @
           cycle_ring_paint (cur head) 596 cy (min 840 areaH * 0.32) #
           concat (map (\<lambda>(i, l). cycle_node_paints (cur head) 596 cy (min 840 areaH * 0.32)
                                   (max 36 (Max (set (map (M labelFont) labels)) / 2 + 16))
                                   (length labels) i l)
                       (enumerate 0 labels)) @
           caption_paints (cur head) d
       \<and> C_contentEnd - C_contentStart = 840
       \<and> C_contentStart + (C_contentEnd - C_contentStart) / 2 = 596
       \<and> cy = 230 + areaH / 2
       \<and> areaH = (if field d ''caption'' = '''' then C_slide - 80 else C_slide - 120) - 230"
proof -
  note cy = draw_cycle_effect[OF ne, of M 840 areaH 596 cy head, folded labels_def]
  have paint: "painted (render_framework M d n c) =
           painted head @
           cycle_ring_paint (cur head) 596 cy (min 840 areaH * 0.32) #
           concat (map (\<lambda>(i, l). cycle_node_paints (cur head) 596 cy (min 840 areaH * 0.32)
                                   (max 36 (Max (set (map (M labelFont) labels)) / 2 + 16))
                                   (length labels) i l)
                       (enumerate 0 labels)) @
           caption_paints (cur head) d"
    unfolding render_framework_cycle[OF ne ty, of M n c]
      head_def[symmetric] cy_def[symmetric] labels_def[symmetric] areaH_def[symmetric]
    using cy by (simp add: caption_after[where ?d0.0 = "cur head" and g = labelFont])
  have rest: "C_contentEnd - C_contentStart = 840"
    "C_contentStart + (C_contentEnd - C_contentStart) / 2 = 596"
    "cy = 230 + areaH / 2"
    "areaH = (if field d ''caption'' = '''' then C_slide - 80 else C_slide - 120) - 230"
    by (simp_all add: C_defs cy_def areaH_def)
  from paint rest show ?thesis by blast
qed

theorem cycle_layout_witness:
  "parse_labels [''labels'' \<mapsto> ''a,b'', ''diagram_type'' \<mapsto> ''cycle''] = [''a'', ''b'']
   \<and> (\<lambda>st. painted (render_framework fixed_pitch
        [''labels'' \<mapsto> ''a,b'', ''diagram_type'' \<mapsto> ''cycle''] None test_canvas) =
     painted (framework_head [''labels'' \<mapsto> ''a,b'', ''diagram_type'' \<mapsto> ''cycle'']
                None test_canvas) @
     [cycle_ring_paint st 596 615 246.4,
      Fill_Path C_paper (globalAlpha st) [Arc 596 368.6 36 0 (2 * pi)],
      Stroke_Path ((stroke_of st)\<lparr>s_color := C_ink, s_width := 1.5\<rparr>)
        [Arc 596 368.6 36 0 (2 * pi)],
      Fill_Text ((text_of st)\<lparr>t_color := C_ink, t_font := labelFont,
                   t_align := ''center''\<rparr>) ''a'' 596 376.6,
      Fill_Path C_paper (globalAlpha st) [Arc 596 861.4 36 0 (2 * pi)],
      Stroke_Path ((stroke_of st)\<lparr>s_color := C_ink, s_width := 1.5\<rparr>)
        [Arc 596 861.4 36 0 (2 * pi)],
      Fill_Text ((text_of st)\<lparr>t_color := C_ink, t_font := labelFont,
                   t_align := ''center''\<rparr>) ''b'' 596 869.4])
     (cur (framework_head [''labels'' \<mapsto> ''a,b'', ''diagram_type'' \<mapsto> ''cycle'']
                None test_canvas))"
proof -
  let ?d = "[''labels'' \<mapsto> ''a,b'', ''diagram_type'' \<mapsto> ''cycle'']"
  let ?h = "framework_head ?d None test_canvas"
  have pl: "parse_labels ?d = [''a'', ''b'']"
    by (simp add: parse_labels_def field_def trim_def is_ws_def)
  have ne: "parse_labels ?d \<noteq> []" by (simp add: pl)
  have ty: "field ?d ''diagram_type'' = ''cycle''" and cap: "field ?d ''caption'' = ''''"
    by (simp_all add: field_def)
  have cp: "caption_paints st ?d = []" for st by (simp add: caption_paints_def cap)
  have cyv: "(if field ?d ''caption'' = '''' then 615 else 595) = (615 :: real)"
    and ahv: "(if field ?d ''caption'' = '''' then 770 else 730) = (770 :: real)"
    by (simp_all add: cap)
  have r: "min 840 770 * 0.32 = (246.4 :: real)" by simp
  have nr: "max 36 (Max (set (map (fixed_pitch labelFont) [''a'', ''b''])) / 2 + 16) = 36"
    by (simp add: fixed_pitch_def)
  have a0: "deg (- 90 + (real 0 / real (length [''a'', ''b''])) * 360) = - (pi / 2)"
    by (simp add: deg_def)
  have a1: "deg (- 90 + (real 1 / real (length [''a'', ''b''])) * 360) = pi / 2"
    by (simp add: deg_def)
  have n0: "cycle_node_paints st 596 615 246.4 36 (length [''a'', ''b'']) 0 ''a'' =
     [Fill_Path C_paper (globalAlpha st) [Arc 596 368.6 36 0 (2 * pi)],
      Stroke_Path ((stroke_of st)\<lparr>s_color := C_ink, s_width := 1.5\<rparr>)
        [Arc 596 368.6 36 0 (2 * pi)],
      Fill_Text ((text_of st)\<lparr>t_color := C_ink, t_font := labelFont,
                   t_align := ''center''\<rparr>) ''a'' 596 376.6]" for st
    unfolding cycle_node_paints_def a0 Let_def by simp
  have n1: "cycle_node_paints st 596 615 246.4 36 (length [''a'', ''b'']) 1 ''b'' =
     [Fill_Path C_paper (globalAlpha st) [Arc 596 861.4 36 0 (2 * pi)],
      Stroke_Path ((stroke_of st)\<lparr>s_color := C_ink, s_width := 1.5\<rparr>)
        [Arc 596 861.4 36 0 (2 * pi)],
      Fill_Text ((text_of st)\<lparr>t_color := C_ink, t_font := labelFont,
                   t_align := ''center''\<rparr>) ''b'' 596 869.4]" for st
    unfolding cycle_node_paints_def a1 Let_def by simp
  have e: "enumerate 0 [''a'', ''b''] = [(0, ''a''), (1, ''b'')]" by simp
  note th = cycle_layout[where M = fixed_pitch and d = ?d and n = None and c = test_canvas,
      OF ne ty, THEN conjunct1, unfolded pl cyv ahv r nr e cp]
  have "painted (render_framework fixed_pitch ?d None test_canvas) =
     painted ?h @
     [cycle_ring_paint (cur ?h) 596 615 246.4,
      Fill_Path C_paper (globalAlpha (cur ?h)) [Arc 596 368.6 36 0 (2 * pi)],
      Stroke_Path ((stroke_of (cur ?h))\<lparr>s_color := C_ink, s_width := 1.5\<rparr>)
        [Arc 596 368.6 36 0 (2 * pi)],
      Fill_Text ((text_of (cur ?h))\<lparr>t_color := C_ink, t_font := labelFont,
                   t_align := ''center''\<rparr>) ''a'' 596 376.6,
      Fill_Path C_paper (globalAlpha (cur ?h)) [Arc 596 861.4 36 0 (2 * pi)],
      Stroke_Path ((stroke_of (cur ?h))\<lparr>s_color := C_ink, s_width := 1.5\<rparr>)
        [Arc 596 861.4 36 0 (2 * pi)],
      Fill_Text ((text_of (cur ?h))\<lparr>t_color := C_ink, t_font := labelFont,
                   t_align := ''center''\<rparr>) ''b'' 596 869.4]"
    using th
    by (simp only: list.map prod.case concat.simps n0 n1 append.simps append_Nil2)
  with pl show ?thesis by (rule conjI)
qed

section \<open>Properties of the renderer dispatch\<close>

text \<open>
  Claim C8, as stated, has a render request for a template identifier outside the 14
  registered ones end in a failure signal. The guard \<open>if (renderers[template])\<close> skips
  the call instead: for the identifier \<open>unknown\<close> the slide canvas is reset and cleared,
  nothing is drawn and no error is raised.
\<close>

theorem unknown_template_counterexample:
  "map_of renderers ''unknown'' = None
   \<and> SlideCanvas fixed_pitch ''unknown'' Map.empty None test_canvas \<noteq> Inl TypeError
   \<and> SlideCanvas fixed_pitch ''unknown'' Map.empty None test_canvas =
       Inr (clearRect 0 0 C_slide C_slide (reset_canvas C_slide C_slide test_canvas))
   \<and> painted (clearRect 0 0 C_slide C_slide (reset_canvas C_slide C_slide test_canvas)) =
       [Reset_Bitmap 1080 1080, Clear_Rect 0 0 1080 1080]"
  by (simp add: renderers_def render_guarded_def SlideCanvas_def inherited_throwing_def
      clearRect_def put_def reset_canvas_def C_slide_def test_canvas_def)

text \<open>
  Claim C8, amended: for every template identifier that is not one of the 14 registered
  templates (and not one of the three inherited property names whose call throws), for
  every field-value record and index, a render request draws nothing and signals no
  failure: the guarded call leaves the context as it is, and the slide canvas is left
  reset and cleared.
\<close>

theorem unknown_template_blank:
  assumes "map_of renderers tmpl = None" and "tmpl \<notin> set inherited_throwing"
  shows "render_guarded M tmpl d slideNum c = Inr c
       \<and> SlideCanvas M tmpl d slideNum c =
           Inr (clearRect 0 0 C_slide C_slide (reset_canvas C_slide C_slide c))
       \<and> painted (clearRect 0 0 C_slide C_slide (reset_canvas C_slide C_slide c)) =
           painted c @ [Reset_Bitmap 1080 1080, Clear_Rect 0 0 1080 1080]"
  using assms
  by (simp add: render_guarded_def SlideCanvas_def clearRect_def put_def reset_canvas_def
      C_slide_def)

theorem unknown_template_blank_witness:
  "map_of renderers ''timeline'' = None \<and> ''timeline'' \<notin> set inherited_throwing
   \<and> SlideCanvas fixed_pitch ''timeline'' [''title'' \<mapsto> ''T''] (Some 3) test_canvas =
       Inr (clearRect 0 0 C_slide C_slide (reset_canvas C_slide C_slide test_canvas))"
proof -
  have a: "map_of renderers ''timeline'' = None" by (simp add: renderers_def)
  have b: "''timeline'' \<notin> set inherited_throwing" by (simp add: inherited_throwing_def)
  from unknown_template_blank[OF a b, of fixed_pitch "[''title'' \<mapsto> ''T'']" "Some 3" test_canvas]
  show ?thesis using a b by simp
qed

section \<open>Rendering twice\<close>

lemmas prims = put_def set_fillStyle_def set_strokeStyle_def set_font_def set_globalAlpha_def
  set_lineWidth_def set_textAlign_def set_lineCap_def set_lineJoin_def setLineDash_def
  set_letterSpacing_if_supported_def save_def restore_def beginPath_def moveTo_def lineTo_def
  arc_def closePath_def stroke_def fill_def fillRect_def strokeRect_def fillText_def
  measureText_def stroke_of_def text_of_def exec_Nil exec_Cons

lemma bare_bare: "bare (bare c) = bare c"
  by (simp add: bare_def)

lemma std_bare: "std (cur (bare c)) = std (cur c)"
  by (simp add: bare_def std_def)

lemma bare_eq_std: "bare a = bare b \<Longrightarrow> std (cur a) = std (cur b)"
  by (metis std_bare)

lemma good_id: "good (\<lambda>c. c)"
  by (simp add: good_def bare_def)

lemma good_comp:
  assumes f: "good f" and g: "good g"
  shows "good (\<lambda>c. g (f c))"
  unfolding good_def
proof (intro allI impI)
  fix c :: canvas assume s: "std (cur c)"
  from f s have f1: "painted (f c) = painted c @ painted (f (bare c))" and f2: "bare (f c) = bare c"
    by (auto simp: good_def)
  from s have sn: "std (cur (bare c))" by (simp add: std_bare)
  from f sn have f3: "bare (f (bare c)) = bare c"
    by (auto simp: good_def bare_bare)
  from f2 s have sf: "std (cur (f c))" using bare_eq_std by blast
  from f3 sn have sfn: "std (cur (f (bare c)))" using bare_eq_std std_bare by blast
  from g sf have g1: "painted (g (f c)) = painted (f c) @ painted (g (bare (f c)))"
    and g2: "bare (g (f c)) = bare (f c)" by (auto simp: good_def)
  from g sfn have g3: "painted (g (f (bare c))) = painted (f (bare c)) @ painted (g (bare (f (bare c))))"
    by (auto simp: good_def)
  show "painted (g (f c)) = painted c @ painted (g (f (bare c))) \<and> bare (g (f c)) = bare c"
    by (simp add: g1 g2 g3 f1 f2 f3)
qed

lemma exec_append: "exec (xs @ ys) c = exec ys (exec xs c)"
  by (simp add: exec_def)

lemma good_fold: "(\<And>x. x \<in> set xs \<Longrightarrow> good (f x)) \<Longrightarrow> good (fold f xs)"
proof (induction xs)
  case Nil
  show ?case using good_id by (simp add: id_def)
next
  case (Cons x xs)
  have "good (\<lambda>c. fold f xs (f x c))"
    by (rule good_comp) (use Cons in auto)
  then show ?case by (simp add: comp_def)
qed

subsection \<open>The common blocks in closed form and the straight-line renderers\<close>

lemma ruled_loop:
  "exec (concat (map (\<lambda>k. [beginPath, moveTo 0 (f k), lineTo C_slide (f k), stroke]) ks)) c =
     c\<lparr>path := (if ks = [] then path c
                else [MoveTo 0 (f (last ks)), LineTo C_slide (f (last ks))]),
       painted := painted c @
         map (\<lambda>k. Stroke_Path (stroke_of (cur c)) [MoveTo 0 (f k), LineTo C_slide (f k)]) ks\<rparr>"
proof (induction ks arbitrary: c)
  case Nil
  show ?case by (simp add: exec_Nil)
next
  case (Cons k ks)
  have step: "exec [beginPath, moveTo 0 (f k), lineTo C_slide (f k), stroke] c =
     c\<lparr>path := [MoveTo 0 (f k), LineTo C_slide (f k)],
       painted := painted c @ [Stroke_Path (stroke_of (cur c)) [MoveTo 0 (f k), LineTo C_slide (f k)]]\<rparr>"
    by (simp add: exec_Cons exec_Nil beginPath_def moveTo_def lineTo_def stroke_def put_def)
  show ?case
    unfolding list.map concat.simps exec_append step Cons.IH by simp
qed

lemma wrapText_draw_eq:
  "wrapText_draw M str x y W lh c =
     c\<lparr>painted := painted c @
        map (\<lambda>(i, l). Fill_Text (text_of (cur c)) l x (y + real i * lh))
            (drawn_lines (M (font (cur c))) str W)\<rparr>"
  by (simp add: wrapText_draw_def wrapText_painted)

lemma wrapText_fst:
  "fst (wrapText M str x y W lh c) =
     (if str = '''' then 0 else length (layout_lines (M (font (cur c))) str W))"
  by (simp add: wrapText_def Let_def measureText_def[abs_def])

lemma good_text_block:
  "good (exec [set_fillStyle a, set_font f, wrapText_draw M str x y W lh])"
  by (simp add: good_def prims bare_def std_def wrapText_draw_eq)

lemma good_fill_text: "good (exec [set_fillStyle a, set_font f, fillText t x y])"
  by (simp add: good_def prims bare_def std_def)

lemma good_cta: "good (render_cta M d n)"
proof -
  have "good (exec ([set_fillStyle C_dark, fillRect 0 0 C_slide C_slide,
            drawMarginLine C_marginLine 0.6,
            set_fillStyle C_paper, set_font ''900 72px 'Inter Tight', sans-serif'',
            fillText ''TIGHT MARGINS'' C_contentStart 440,
            set_fillStyle C_red, fillRect C_contentStart 468 80 4,
            set_fillStyle C_paper, set_font ''600 40px 'Inter Tight', sans-serif'',
            fillText (or_else (field d ''cta_text'') ''Subscribe for more.'') C_contentStart 540,
            set_fillStyle C_red, set_font ''400 26px 'JetBrains Mono', monospace'',
            fillText (or_else (field d ''url'') ''tightmargins.com'') C_contentStart 592] @
           (if field d ''handle'' \<noteq> ''''
            then [set_fillStyle C_grey, set_font ''400 22px 'JetBrains Mono', monospace'',
                  fillText (field d ''handle'') C_contentStart 628]
            else [])))"
    by (simp add: good_def drawMarginLine_def prims bare_def std_def)
  then show ?thesis by (simp add: render_cta_def[abs_def])
qed

lemma drawRuledLines_eq:
  "drawRuledLines c =
     c\<lparr>path := [MoveTo 0 (C_ruledStart + real (last [0..<32]) * C_ruledInterval),
                LineTo C_slide (C_ruledStart + real (last [0..<32]) * C_ruledInterval)],
       painted := painted c @
         map (\<lambda>k. Stroke_Path ((stroke_of (cur c))\<lparr>s_color := C_grey, s_width := 0.5, s_alpha := 0.35\<rparr>)
                   [MoveTo 0 (C_ruledStart + real k * C_ruledInterval),
                    LineTo C_slide (C_ruledStart + real k * C_ruledInterval)]) [0..<32]\<rparr>"
  by (simp add: drawRuledLines_def exec_append ruled_loop prims)

lemma drawMarginLine_eq:
  "drawMarginLine x a c =
     c\<lparr>path := [MoveTo x 0, LineTo x C_slide],
       painted := painted c @
         [Stroke_Path ((stroke_of (cur c))\<lparr>s_color := C_red, s_width := 2, s_alpha := a\<rparr>)
            [MoveTo x 0, LineTo x C_slide]]\<rparr>"
  by (simp add: drawMarginLine_def prims)

lemma paper_page_eq:
  "paper_page c =
     c\<lparr>cur := (cur c)\<lparr>fillStyle := C_paper\<rparr>,
       path := [MoveTo C_marginLine 0, LineTo C_marginLine C_slide],
       painted := painted c @
         Fill_Rect C_paper (globalAlpha (cur c)) 0 0 C_slide C_slide #
         map (\<lambda>k. Stroke_Path ((stroke_of (cur c))\<lparr>s_color := C_grey, s_width := 0.5, s_alpha := 0.35\<rparr>)
                   [MoveTo 0 (C_ruledStart + real k * C_ruledInterval),
                    LineTo C_slide (C_ruledStart + real k * C_ruledInterval)]) [0..<32] @
         [Stroke_Path ((stroke_of (cur c))\<lparr>s_color := C_red, s_width := 2, s_alpha := 0.7\<rparr>)
            [MoveTo C_marginLine 0, LineTo C_marginLine C_slide]]\<rparr>"
  by (simp add: paper_page_def exec_Cons exec_Nil drawRuledLines_eq drawMarginLine_eq
      set_fillStyle_def fillRect_def put_def stroke_of_def)

lemma draw_slideNum_None: "draw_slideNum None c = c"
  by (simp add: draw_slideNum_def)

lemma draw_slideNum_Some:
  "draw_slideNum (Some k) c =
     c\<lparr>cur := (if k = 0 then cur c
               else (cur c)\<lparr>fillStyle := C_grey, font := ''400 20px 'JetBrains Mono', monospace''\<rparr>),
       painted := painted c @
         (if k = 0 then []
          else [Fill_Text ((text_of (cur c))\<lparr>t_color := C_grey,
                              t_font := ''400 20px 'JetBrains Mono', monospace''\<rparr>)
                  (padStart2 (digits_of k)) 64 80])\<rparr>"
  by (simp add: draw_slideNum_def prims)

lemmas blocks = paper_page_eq draw_slideNum_None draw_slideNum_Some drawMarginLine_eq wrapText_draw_eq

lemma good_data: "good (render_data M d n)"
  by (cases n) (simp_all add: good_def render_data_def blocks prims bare_def std_def)

lemma good_blank: "good (render_blank M d n)"
  by (cases n) (simp_all add: good_def render_blank_def blocks prims bare_def std_def)

lemma good_section_divider: "good (render_section_divider M d n)"
  by (auto simp add: good_def render_section_divider_def blocks prims bare_def std_def)

lemma good_comparison: "good (render_comparison M d n)"
  by (cases n) (simp_all add: good_def render_comparison_def Let_def blocks prims bare_def std_def)

lemma let_wrapText:
  "(case wrapText M str x y W lh c of (k, c') \<Rightarrow> body k c') =
     body (if str = '''' then 0 else length (layout_lines (M (font (cur c))) str W))
          (wrapText_draw M str x y W lh c)"
  by (simp add: wrapText_draw_def case_prod_beta wrapText_fst)

lemma good_cover: "good (render_cover M d n)"
  by (simp add: good_def render_cover_def Let_def let_wrapText blocks prims bare_def std_def)

lemma good_quote: "good (render_quote M d n)"
  by (cases n)
     (simp_all add: good_def render_quote_def Let_def let_wrapText blocks prims bare_def std_def)

subsection \<open>The list renderers\<close>

lemma good_then_exec: "good f \<Longrightarrow> good (exec xs) \<Longrightarrow> good (\<lambda>c. exec xs (f c))"
  by (rule good_comp)

lemma good_then_fold:
  assumes "good f" and "\<And>x. good (h x)"
  shows "good (\<lambda>c. fold h xs (f c))"
  using assms(1) by (rule good_comp) (rule good_fold, rule assms(2))

lemma good_headline_pre:
  "good (\<lambda>c. wrapText_draw M h x y W lh
            (exec [paper_page, draw_slideNum n, set_fillStyle a, set_font f] c))"
  by (cases n) (simp_all add: good_def blocks prims bare_def std_def)

lemma headline_font:
  "font (cur (exec [paper_page, draw_slideNum n, set_fillStyle a, set_font f] c)) = f"
  by (simp add: exec_Cons exec_Nil set_font_def)

lemma good_list_item: "good (list_item M listStart spacing k it)"
  by (cases it)
     (simp add: good_def list_item_def Let_def blocks prims bare_def std_def)

lemma good_two_up_item: "good (two_up_item M textX textW it)"
  by (cases it)
     (auto simp add: good_def two_up_item_def Let_def blocks prims bare_def std_def)

lemma good_divider: "good (exec [save, set_strokeStyle a, set_lineWidth w, set_globalAlpha al,
         beginPath, moveTo x y, lineTo x' y', stroke, restore])"
  by (simp add: good_def prims bare_def std_def)

lemma good_three_up_divider: "good (three_up_divider itemsY dx)"
  by (simp add: good_def three_up_divider_def prims bare_def std_def)

lemma good_three_up_col: "good (three_up_col M d itemsY colW ic)"
  by (cases ic)
     (simp add: good_def three_up_col_def Let_def blocks prims bare_def std_def)

subsection \<open>Beginning with the background\<close>

lemma overpaints_comp:
  assumes f: "overpaints B f" and g: "good g"
  shows "overpaints B (\<lambda>c. g (f c))"
  unfolding overpaints_def
proof (intro conjI allI impI)
  from f have gf: "good f" by (simp add: overpaints_def)
  show "good (\<lambda>c. g (f c))" by (rule good_comp[OF gf g])
  fix c :: canvas assume s: "std (cur c)"
  from f s obtain rest where r: "painted (f (bare c)) = B @ rest"
    by (auto simp: overpaints_def)
  from s have sn: "std (cur (bare c))" by (simp add: std_bare)
  from gf sn have "bare (f (bare c)) = bare c" by (auto simp: good_def bare_bare)
  with sn have "std (cur (f (bare c)))" using bare_eq_std std_bare by blast
  with g have "painted (g (f (bare c))) = painted (f (bare c)) @ painted (g (bare (f (bare c))))"
    by (auto simp: good_def)
  then show "\<exists>rest. painted (g (f (bare c))) = B @ rest" by (simp add: r)
qed

lemma overpaints_then_fold:
  assumes "overpaints B f" and "\<And>x. good (h x)"
  shows "overpaints B (\<lambda>c. fold h xs (f c))"
  using assms(1) by (rule overpaints_comp) (rule good_fold, rule assms(2))

lemma overpaints_headline_pre:
  "overpaints paper_fill (\<lambda>c. wrapText_draw M h x y W lh
            (exec [paper_page, draw_slideNum n, set_fillStyle a, set_font f] c))"
  unfolding overpaints_def
  by (rule conjI[OF good_headline_pre])
     (cases n; simp add: paper_fill_def blocks prims bare_def std_def)

lemma overpaints_headline_then:
  assumes "\<And>k. good (rest k)"
  shows "overpaints paper_fill (\<lambda>c. case wrapText M h x y W lh
                      (exec [paper_page, draw_slideNum n, set_fillStyle a, set_font f] c)
                    of (k, c') \<Rightarrow> rest k c')"
  unfolding let_wrapText headline_font
  by (rule overpaints_comp[OF overpaints_headline_pre assms])

lemma starts_cta:
  "std (cur c) \<Longrightarrow> \<exists>rest. painted (render_cta M d n (bare c)) = dark_fill @ rest"
  by (simp add: dark_fill_def render_cta_def drawMarginLine_def prims bare_def std_def)

lemma over_cta: "overpaints dark_fill (render_cta M d n)"
  unfolding overpaints_def using good_cta starts_cta by blast

lemma starts_data:
  "std (cur c) \<Longrightarrow> \<exists>rest. painted (render_data M d n (bare c)) = paper_fill @ rest"
  by (cases n) (simp_all add: paper_fill_def render_data_def blocks prims bare_def std_def)

lemma over_data: "overpaints paper_fill (render_data M d n)"
  unfolding overpaints_def using good_data starts_data by blast

lemma starts_blank:
  "std (cur c) \<Longrightarrow> \<exists>rest. painted (render_blank M d n (bare c)) = paper_fill @ rest"
  by (cases n) (simp_all add: paper_fill_def render_blank_def blocks prims bare_def std_def)

lemma over_blank: "overpaints paper_fill (render_blank M d n)"
  unfolding overpaints_def using good_blank starts_blank by blast

lemma starts_section_divider:
  "std (cur c) \<Longrightarrow> \<exists>rest. painted (render_section_divider M d n (bare c)) = paper_fill @ rest"
  by (auto simp add: paper_fill_def render_section_divider_def blocks prims bare_def std_def)

lemma over_section_divider: "overpaints paper_fill (render_section_divider M d n)"
  unfolding overpaints_def using good_section_divider starts_section_divider by blast

lemma starts_comparison:
  "std (cur c) \<Longrightarrow> \<exists>rest. painted (render_comparison M d n (bare c)) = paper_fill @ rest"
  by (cases n)
     (simp_all add: paper_fill_def render_comparison_def Let_def blocks prims bare_def std_def)

lemma over_comparison: "overpaints paper_fill (render_comparison M d n)"
  unfolding overpaints_def using good_comparison starts_comparison by blast

lemma starts_cover:
  "std (cur c) \<Longrightarrow> \<exists>rest. painted (render_cover M d n (bare c)) = cover_bands @ rest"
  by (simp add: cover_bands_def render_cover_def Let_def let_wrapText blocks prims bare_def
      std_def)

lemma over_cover: "overpaints cover_bands (render_cover M d n)"
  unfolding overpaints_def using good_cover starts_cover by blast

lemma starts_quote:
  "std (cur c) \<Longrightarrow> \<exists>rest. painted (render_quote M d n (bare c)) = paper_fill @ rest"
  by (cases n)
     (simp_all add: paper_fill_def render_quote_def Let_def let_wrapText blocks prims bare_def
        std_def)

lemma over_quote: "overpaints paper_fill (render_quote M d n)"
  unfolding overpaints_def using good_quote starts_quote by blast

subsection \<open>The renderers with a headline and a list\<close>

lemma over_numbered_list: "overpaints paper_fill (render_numbered_list M d n)"
  unfolding render_numbered_list_def[abs_def] Let_def
proof (rule overpaints_headline_then)
  fix k
  show "good (\<lambda>c2. if list_items d = [] then c2
          else fold (list_item M (max (180 + real k * 76 + 34) 290)
                 (if length (list_items d) \<le> 3 then 140
                  else if length (list_items d) = 4 then 118 else 100)
                 (length (list_items d))) (enumerate 0 (list_items d)) c2)"
  proof (cases "list_items d = []")
    case True
    then show ?thesis by (simp add: good_id)
  next
    case False
    then show ?thesis by (simp only: if_False) (rule good_fold, rule good_list_item)
  qed
qed

lemma over_two_up: "overpaints paper_fill (render_two_up M d n)"
  unfolding render_two_up_def[abs_def] Let_def
  apply (rule overpaints_headline_then)
  apply (rule good_then_exec)
   apply (rule good_fold)
   apply (rule good_two_up_item)
  apply (rule good_divider)
  done

lemma over_three_up: "overpaints paper_fill (render_three_up M d n)"
  unfolding render_three_up_def[abs_def] Let_def
  apply (rule overpaints_headline_then)
  apply (rule good_then_fold)
   apply (rule good_fold)
   apply (rule good_three_up_divider)
  apply (rule good_three_up_col)
  done

subsection \<open>The checklist renderer\<close>

lemma good_check_do_item: "good (check_do_item M col1X colW it)"
  by (cases it)
     (simp add: good_def check_do_item_def Let_def blocks prims bare_def std_def)

lemma good_check_dont_item: "good (check_dont_item M col2X colW it)"
  by (cases it)
     (simp add: good_def check_dont_item_def Let_def blocks prims bare_def std_def)

lemma good_checklist_head:
  "good (exec [paper_page, draw_slideNum n, set_fillStyle a, set_font f,
               wrapText_draw M h x y W lh,
               save, set_strokeStyle a', set_lineWidth w, set_globalAlpha al,
               beginPath, moveTo x1 y1, lineTo x2 y2, stroke, restore,
               check_header M k1 l1 hx1 hy, check_header M k2 l2 hx2 hy])"
  by (cases n)
     (simp_all add: good_def check_header_def Let_def measureText_def blocks prims bare_def std_def)

lemma over_checklist_head:
  "overpaints paper_fill (exec [paper_page, draw_slideNum n, set_fillStyle a, set_font f,
               wrapText_draw M h x y W lh,
               save, set_strokeStyle a', set_lineWidth w, set_globalAlpha al,
               beginPath, moveTo x1 y1, lineTo x2 y2, stroke, restore,
               check_header M k1 l1 hx1 hy, check_header M k2 l2 hx2 hy])"
  unfolding overpaints_def
  by (rule conjI[OF good_checklist_head])
     (cases n; simp add: paper_fill_def check_header_def Let_def blocks prims bare_def std_def)

lemma over_checklist: "overpaints paper_fill (render_checklist M d n)"
  unfolding render_checklist_def[abs_def] Let_def
  apply (rule overpaints_then_fold)
   apply (rule overpaints_then_fold)
    apply (rule over_checklist_head)
   apply (rule good_check_do_item)
  apply (rule good_check_dont_item)
  done

subsection \<open>The single renderer and the emphasis pass\<close>

lemma emph_word_paints_stroke:
  "emph_word_paints M (d\<lparr>strokeStyle := s, lineWidth := w\<rparr>) ew col ly cx wd =
   emph_word_paints M d ew col ly cx wd"
  by (simp add: emph_word_paints_def text_of_def stroke_of_def)

lemma emph_word_width_stroke:
  "emph_word_width M (d\<lparr>strokeStyle := s, lineWidth := w\<rparr>) ew wd = emph_word_width M d ew wd"
  by (simp add: emph_word_width_def)

lemma emph_line_paints_stroke:
  "emph_line_paints M (d\<lparr>strokeStyle := s, lineWidth := w\<rparr>) ew col ly cx ws =
   emph_line_paints M d ew col ly cx ws"
  by (induction ws arbitrary: cx)
     (simp_all add: emph_word_paints_stroke emph_word_width_stroke)

lemma good_set_fill_font: "good (exec [set_fillStyle a, set_font f])"
  by (simp add: good_def prims bare_def std_def)

lemma good_emphasis:
  "good (\<lambda>c. snd (drawTextWithEmphasis M str e x y W lh col
                     (exec [set_fillStyle a, set_font f] c)))"
proof (cases "str = '''' \<or> e = '''' \<or> \<not> includes_str (toLowerCase str) (toLowerCase e)")
  case True
  then have "(\<lambda>c. snd (drawTextWithEmphasis M str e x y W lh col
                     (exec [set_fillStyle a, set_font f] c))) =
      (if str = '''' then exec [set_fillStyle a, set_font f]
       else exec [set_fillStyle a, set_font f, wrapText_draw M str x y W lh])"
    by (auto simp: fun_eq_iff drawTextWithEmphasis_def wrapText_draw_def exec_Cons exec_Nil)
  then show ?thesis by (simp add: good_text_block good_set_fill_font)
next
  case False
  define ew where "ew = split_on CHR '' '' (toLowerCase e)"
  define ls where "ls = layout_lines (M f) str W"
  define P where "P d = concat (map (\<lambda>(i, l). emph_line_paints M d ew col
                                 (y + real i * lh) x (split_on CHR '' '' l))
                     (filter (\<lambda>(i, l). l \<noteq> '''') (enumerate 0 ls)))" for d
  have dt: "snd (drawTextWithEmphasis M str e x y W lh col c') =
      fold (draw_emph_line M ew (font (cur c')) (fillStyle (cur c')) col x y lh)
           (enumerate 0 ls) c'" if "font (cur c') = f" for c'
    using False that
    by (simp add: drawTextWithEmphasis_def Let_def measureText_def[abs_def] ls_def ew_def)
  have eff: "painted (snd (drawTextWithEmphasis M str e x y W lh col c')) = painted c' @ P (cur c')
      \<and> cur (snd (drawTextWithEmphasis M str e x y W lh col c')) = cur c'"
    if "font (cur c') = f" for c'
    using fold_draw_emph_line[of M ew c' col x y lh 0 ls] unfolding dt[OF that] Let_def P_def
    by blast
  show ?thesis unfolding good_def
  proof (intro allI impI)
    fix c :: canvas assume s: "std (cur c)"
    let ?c3 = "exec [set_fillStyle a, set_font f] c"
    let ?n3 = "exec [set_fillStyle a, set_font f] (bare c)"
    have c3: "font (cur ?c3) = f" "painted ?c3 = painted c"
      "cur ?c3 = (cur c)\<lparr>fillStyle := a, font := f\<rparr>"
      by (simp_all add: prims)
    have n3: "font (cur ?n3) = f" "painted ?n3 = []"
      "cur ?n3 = (cur ?c3)\<lparr>strokeStyle := '''', lineWidth := 0\<rparr>"
      by (simp_all add: prims bare_def)
    have PP: "P (cur ?n3) = P (cur ?c3)"
      unfolding n3(3) P_def by (simp add: emph_line_paints_stroke)
    from eff[OF c3(1)] eff[OF n3(1)] PP
    have "painted (snd (drawTextWithEmphasis M str e x y W lh col ?c3)) =
        painted c @ painted (snd (drawTextWithEmphasis M str e x y W lh col ?n3))"
      by (simp add: c3(2) n3(2))
    moreover from eff[OF c3(1)]
    have "bare (snd (drawTextWithEmphasis M str e x y W lh col ?c3)) = bare c"
      by (simp add: bare_def c3(3))
    ultimately show "painted (snd (drawTextWithEmphasis M str e x y W lh col ?c3)) =
        painted c @ painted (snd (drawTextWithEmphasis M str e x y W lh col ?n3))
      \<and> bare (snd (drawTextWithEmphasis M str e x y W lh col ?c3)) = bare c"
      by (rule conjI)
  qed
qed

lemma over_single: "overpaints paper_fill (render_single M d n)"
  unfolding render_single_def[abs_def] Let_def
  apply (rule overpaints_headline_then)
  apply (rule good_emphasis)
  done

subsection \<open>The punchline renderer\<close>

lemma fold_pair_good:
  assumes "\<And>x a. good (g x a)"
  shows "good (\<lambda>c. snd (fold (\<lambda>x (a, c). (nxt x a, g x a c)) xs (a, c)))"
proof (induction xs arbitrary: a)
  case Nil
  show ?case by (simp add: good_id)
next
  case (Cons x xs)
  have "good (\<lambda>c. snd (fold (\<lambda>x (a, c). (nxt x a, g x a c)) xs (nxt x a, g x a c)))"
    by (rule good_comp[OF assms Cons.IH])
  then show ?case by simp
qed

lemma fold_inv_eq:
  assumes "I s" and "\<And>x s. I s \<Longrightarrow> f x s = g x s \<and> I (g x s)"
  shows "fold f xs s = fold g xs s \<and> I (fold g xs s)"
  using assms(1)
proof (induction xs arbitrary: s)
  case Nil
  then show ?case by simp
next
  case (Cons x xs)
  from assms(2)[OF Cons.prems] have e: "f x s = g x s" and i: "I (g x s)" by auto
  from Cons.IH[OF i] show ?case by (simp add: e)
qed

lemma set_font_same: "font (cur c) = F \<Longrightarrow> set_font F c = c"
  by (auto simp: set_font_def)

lemma punch_word_eq:
  assumes "font (cur c) = F"
  shows "punch_word M ew ly spW n iw (cx, c) =
     (\<lambda>iw (a, c).
        (case iw of (wi, w) \<Rightarrow> if int wi < int n - 1 then a + M F w + spW else a + M F w,
         (case iw of (wi, w) \<Rightarrow> \<lambda>a. exec [set_font F,
                set_fillStyle (if isEmph ew w then C_red else C_ink), fillText w a ly]) a c))
       iw (cx, c)
   \<and> font (cur (snd (punch_word M ew ly spW n iw (cx, c)))) = F"
  using assms
  by (cases iw)
     (simp add: punch_word_def Let_def measureText_def exec_Cons exec_Nil set_font_same
        set_fillStyle_def fillText_def put_def)

lemma good_punch_words:
  "good (\<lambda>c. snd (fold (\<lambda>iw (a, c).
        (case iw of (wi, w) \<Rightarrow> if int wi < int n - 1 then a + M F w + spW else a + M F w,
         (case iw of (wi, w) \<Rightarrow> \<lambda>a. exec [set_font F,
                set_fillStyle (if isEmph ew w then C_red else C_ink), fillText w a ly]) a c))
      xs (a, c)))"
  by (rule fold_pair_good) (auto simp: good_def prims bare_def std_def split: prod.splits)

lemma set_fillStyle_same: "fillStyle (cur c) = a \<Longrightarrow> set_fillStyle a c = c"
  by (auto simp: set_fillStyle_def)

lemma over_punchline: "overpaints paper_fill (render_punchline M d n)"
proof -
  define F where "F = ''700 76px 'Inter Tight', sans-serif''"
  define str where "str = or_else (field d ''text'') ''Your punchline here.''"
  define ew where "ew = (if field d ''emphasis'' \<noteq> ''''
                         then split_on CHR '' '' (toLowerCase (field d ''emphasis'')) else [])"
  define ls where "ls = (case wrap_words (M F) (C_contentEnd - C_contentStart)
                                (split_on CHR '' '' str) '''' []
                         of (testLine, ls) \<Rightarrow> ls @ [trim testLine])"
  define startY where "startY = (C_slide - real (length ls) * 84) / 2 + 76"
  define spW where "spW = M F '' ''"
  define step where "step ly k = (\<lambda>iw (a, c).
        (case iw of (wi, w) \<Rightarrow> if int wi < int k - 1 then a + M F w + spW else a + M F w,
         (case iw of (wi, w) \<Rightarrow> \<lambda>a. exec [set_font F,
                set_fillStyle (if isEmph ew w then C_red else C_ink), fillText w a ly]) a
           (c :: canvas)))" for ly :: real and k :: nat
  define PL where "PL il = (case il of (i, line) \<Rightarrow>
        if ew \<noteq> []
        then (\<lambda>c. snd (fold (step (startY + real i * 84) (length (split_on CHR '' '' line)))
                          (enumerate 0 (split_on CHR '' '' line)) (C_contentStart, c)))
        else exec [set_font F, set_fillStyle C_ink,
                   fillText line C_contentStart (startY + real i * 84)])"
    for il :: "nat \<times> string"
  define J where "J c = (font (cur c) = F \<and> (ew = [] \<longrightarrow> fillStyle (cur c) = C_ink))"
    for c :: canvas
  have fold_w: "fold (punch_word M ew ly spW k) xs s = fold (step ly k) xs s
      \<and> font (cur (snd (fold (step ly k) xs s))) = F"
    if "font (cur (snd s)) = F" for ly k xs s
  proof (rule fold_inv_eq[where I = "\<lambda>s. font (cur (snd s)) = F", OF that])
    fix x and s :: "real \<times> canvas"
    assume a: "font (cur (snd s)) = F"
    obtain cx c where s: "s = (cx, c)" by (cases s)
    from a s have f: "font (cur c) = F" by simp
    from punch_word_eq[OF f, of M ew ly spW k x cx]
    show "punch_word M ew ly spW k x s = step ly k x s \<and> font (cur (snd (step ly k x s))) = F"
      unfolding s step_def by metis
  qed
  have pl: "punch_line M ew startY spW il c = PL il c \<and> J (PL il c)" if "J c" for il c
  proof (cases "ew = []")
    case True
    with that show ?thesis
      by (cases il)
         (simp add: J_def PL_def punch_line_def Let_def exec_Cons exec_Nil set_font_same
            set_fillStyle_same fillText_def put_def)
  next
    case False
    obtain i line where il: "il = (i, line)" by (cases il)
    from that have f: "font (cur (snd (C_contentStart, c))) = F" by (simp add: J_def)
    from fold_w[OF f, of "startY + real i * 84" "length (split_on CHR '' '' line)"
        "enumerate 0 (split_on CHR '' '' line)"]
    show ?thesis using False by (simp add: il J_def PL_def punch_line_def Let_def)
  qed
  have fold_l: "fold (punch_line M ew startY spW) xs c = fold PL xs c" if "J c" for xs c
    using fold_inv_eq[where I = J and f = "punch_line M ew startY spW" and g = PL, OF that pl]
    by blast
  have gPL: "good (PL il)" for il
  proof (cases "ew = []")
    case True
    then show ?thesis
      by (cases il) (simp add: PL_def good_def prims bare_def std_def)
  next
    case False
    then show ?thesis
      unfolding PL_def step_def by (cases il) (simp add: good_punch_words)
  qed
  have pre: "overpaints paper_fill (exec [paper_page, set_fillStyle C_ink, set_font F])"
    by (simp add: overpaints_def paper_fill_def good_def blocks prims bare_def std_def)
  have eq: "render_punchline M d n =
      (\<lambda>c. fold PL (enumerate 0 ls) (exec [paper_page, set_fillStyle C_ink, set_font F] c))"
  proof
    fix c
    let ?c1 = "exec [set_fillStyle C_ink, set_font F] (paper_page c)"
    have m: "measureText M ?c1 = M F"
      by (simp add: measureText_def[abs_def] prims)
    have j: "J ?c1" by (simp add: J_def prims)
    have e: "exec [paper_page, set_fillStyle C_ink, set_font F] c = ?c1"
      by (simp add: exec_Cons exec_Nil)
    show "render_punchline M d n c =
        fold PL (enumerate 0 ls) (exec [paper_page, set_fillStyle C_ink, set_font F] c)"
      unfolding e fold_l[OF j, symmetric]
      unfolding render_punchline_def Let_def F_def[symmetric] m str_def[symmetric]
        ew_def[symmetric] ls_def[symmetric] startY_def[symmetric] spW_def[symmetric] ..
  qed
  show ?thesis unfolding eq by (rule overpaints_then_fold[OF pre gPL])
qed

subsection \<open>The framework renderer\<close>

lemma boxes_paints_bare:
  "boxes_paints (d\<lparr>fillStyle := a, strokeStyle := b, font := f, lineWidth := w\<rparr>) rowY bs =
   boxes_paints d rowY bs"
  by (induction bs) (auto simp: flow_box_paints_def stroke_of_def text_of_def)

lemma good_draw_flow: "good (draw_flow M labels contentW cx cy)"
  unfolding good_def
proof (intro allI impI)
  fix c :: canvas assume "std (cur c)"
  note a = draw_flow_effect[of M labels contentW cx cy c]
  note b = draw_flow_effect[of M labels contentW cx cy "bare c"]
  have n: "cur (bare c) = (cur c)\<lparr>fillStyle := '''', strokeStyle := '''', font := '''', lineWidth := 0\<rparr>"
    "painted (bare c) = []"
    by (simp_all add: bare_def)
  have "painted (draw_flow M labels contentW cx cy c) =
      painted c @ painted (draw_flow M labels contentW cx cy (bare c))"
    using a b unfolding n boxes_paints_bare by simp
  moreover have "bare (draw_flow M labels contentW cx cy c) = bare c"
    using a by (simp add: bare_def)
  ultimately show "painted (draw_flow M labels contentW cx cy c) =
      painted c @ painted (draw_flow M labels contentW cx cy (bare c)) \<and>
      bare (draw_flow M labels contentW cx cy c) = bare c" by (rule conjI)
qed

lemma good_cycle_node: "good (cycle_node cx cy radius nodeR n il)"
  by (cases il)
     (simp add: good_def cycle_node_def Let_def prims bare_def std_def)

lemma good_draw_cycle: "good (draw_cycle M labels contentW areaH cx cy)"
proof -
  have m: "(\<lambda>l. measureText M (set_font labelFont c) l) = M labelFont" for c
    by (simp add: measureText_def set_font_def fun_eq_iff)
  have "good (\<lambda>c. fold (cycle_node cx cy (min contentW areaH * 0.32)
                          (cycle_nodeR (map (M labelFont) labels)) (length labels))
                    (enumerate 0 labels)
                    (exec [set_font labelFont, save, set_strokeStyle C_grey, set_lineWidth 1,
                           setLineDash [6, 4], beginPath,
                           arc cx cy (min contentW areaH * 0.32) 0 (pi * 2), stroke,
                           setLineDash [], restore] c))"
    by (rule good_then_fold)
       (simp_all add: good_cycle_node, simp add: good_def prims bare_def std_def)
  then show ?thesis
    unfolding draw_cycle_def[abs_def] Let_def m by (simp add: exec_Cons)
qed

lemma good_quadrant_label: "good (draw_quadrant_label positions il)"
  by (cases il)
     (simp add: good_def draw_quadrant_label_def prims bare_def std_def)

lemma good_draw_quadrant: "good (draw_quadrant labels contentW areaH cx cy)"
  unfolding draw_quadrant_def[abs_def] Let_def
  apply (rule good_then_fold)
   apply (simp add: good_def prims bare_def std_def)
  apply (rule good_quadrant_label)
  done

lemma fold_pair_stack:
  assumes "\<And>x a c. stack (g x a c) = stack c"
  shows "stack (snd (fold (\<lambda>x (a, c). (nxt x a, g x a c)) xs (a, c))) = stack c"
  by (induction xs arbitrary: a c) (simp_all add: assms)

lemma good_bracket:
  assumes h: "good h" and st: "\<And>c. stack (h c) = stack c"
  shows "good (\<lambda>c. restore (h (save c)))"
  unfolding good_def
proof (intro allI impI)
  fix c :: canvas assume s: "std (cur c)"
  have sv: "std (cur (save c))" "bare (save c) = bare c" "painted (save c) = painted c"
    "stack (save c) = cur c # stack c"
    using s by (simp_all add: save_def bare_def)
  from h sv(1) have h1: "painted (h (save c)) = painted c @ painted (h (bare c))"
    and h2: "bare (h (save c)) = bare c"
    by (auto simp: good_def sv)
  have sn: "std (cur (save (bare c)))" "bare (save (bare c)) = bare c"
    "painted (save (bare c)) = []"
    using s by (simp_all add: save_def bare_def std_def)
  from h sn(1) have h3: "painted (h (save (bare c))) = painted (h (bare c))"
    by (auto simp: good_def sn)
  have pr: "painted (restore x) = painted x" for x :: canvas
    by (simp add: restore_def split: list.splits)
  have "stack (h (save c)) = cur c # stack c" by (simp add: st sv)
  then have cr: "cur (restore (h (save c))) = cur c" by (simp add: restore_def)
  have a: "painted (restore (h (save c))) = painted c @ painted (restore (h (save (bare c))))"
    by (simp only: pr h1 h3)
  have b: "bare (restore (h (save c))) = bare c"
    by (simp add: bare_def cr)
  from a b show "painted (restore (h (save c))) = painted c @ painted (restore (h (save (bare c)))) \<and>
        bare (restore (h (save c))) = bare c" by (rule conjI)
qed

lemma hierarchy_child_eq:
  assumes "strokeStyle (cur c) = C_ink" and "lineWidth (cur c) = 1.5"
  shows "hierarchy_child cx jY cY cb (a, c) =
     (\<lambda>cb (a, c).
        (case cb of (child, bw) \<Rightarrow> a + bw + 20,
         (case cb of (child, bw) \<Rightarrow> \<lambda>a.
            exec [set_strokeStyle C_ink, set_lineWidth 1.5,
                  beginPath, moveTo cx jY, lineTo (a + bw / 2) jY,
                  lineTo (a + bw / 2) cY, stroke,
                  set_strokeStyle C_ink, set_lineWidth 1.5, strokeRect a cY bw 56,
                  set_fillStyle C_ink, set_font labelFont, set_textAlign ''center'',
                  fillText child (a + bw / 2) (cY + 56 / 2 + 8),
                  set_textAlign ''start'', set_strokeStyle C_ink]) a c))
       cb (a, c)
   \<and> strokeStyle (cur (snd (hierarchy_child cx jY cY cb (a, c)))) = C_ink
   \<and> lineWidth (cur (snd (hierarchy_child cx jY cY cb (a, c)))) = 1.5"
  by (cases cb) (simp add: hierarchy_child_def Let_def prims assms)

lemma good_hierarchy_children:
  "good (\<lambda>c. restore (snd (fold (hierarchy_child cx jY cY) xs
            (x0, exec [save, set_strokeStyle C_ink, set_lineWidth 1.5, beginPath,
                       moveTo mx my, lineTo lx ly, stroke] c))))"
proof -
  define g where "g = (\<lambda>cb. case cb of (child :: string, bw :: real) \<Rightarrow> \<lambda>a.
            exec [set_strokeStyle C_ink, set_lineWidth 1.5,
                  beginPath, moveTo cx jY, lineTo (a + bw / 2) jY,
                  lineTo (a + bw / 2) cY, stroke,
                  set_strokeStyle C_ink, set_lineWidth 1.5, strokeRect a cY bw 56,
                  set_fillStyle C_ink, set_font labelFont, set_textAlign ''center'',
                  fillText child (a + bw / 2) (cY + 56 / 2 + 8),
                  set_textAlign ''start'', set_strokeStyle C_ink])"
  define nxt where "nxt = (\<lambda>cb a. case cb of (child :: string, bw :: real) \<Rightarrow> a + bw + 20)"
  define step where "step = (\<lambda>cb (a, c :: canvas). (nxt cb a, g cb a c))"
  define pre where "pre = exec [set_strokeStyle C_ink, set_lineWidth 1.5, beginPath,
                       moveTo mx my, lineTo lx ly, stroke]"
  define h where "h = (\<lambda>c. snd (fold step xs (x0, pre c)))"
  have gg: "good (g cb a)" for cb a
    by (cases cb) (simp add: g_def good_def prims bare_def std_def)
  have gs: "stack (g cb a c) = stack c" for cb a c
    by (cases cb) (simp add: g_def prims)
  have gpre: "good pre" by (simp add: pre_def good_def prims bare_def std_def)
  have spre: "stack (pre c) = stack c" for c by (simp add: pre_def prims)
  have ipre: "strokeStyle (cur (pre c)) = C_ink \<and> lineWidth (cur (pre c)) = 1.5" for c
    by (simp add: pre_def prims)
  have gh: "good h"
    unfolding h_def step_def by (rule good_comp[OF gpre fold_pair_good[OF gg]])
  have sh: "stack (h c) = stack c" for c
    unfolding h_def step_def by (simp add: fold_pair_stack[OF gs] spre)
  have fo: "fold (hierarchy_child cx jY cY) xs s = fold step xs s"
    if "strokeStyle (cur (snd s)) = C_ink \<and> lineWidth (cur (snd s)) = 1.5" for s
  proof -
    have "fold (hierarchy_child cx jY cY) xs s = fold step xs s \<and>
        (strokeStyle (cur (snd (fold step xs s))) = C_ink \<and>
         lineWidth (cur (snd (fold step xs s))) = 1.5)"
    proof (rule fold_inv_eq[where I = "\<lambda>s. strokeStyle (cur (snd s)) = C_ink \<and>
                                            lineWidth (cur (snd s)) = 1.5", OF that])
      fix x and s :: "real \<times> canvas"
      assume a: "strokeStyle (cur (snd s)) = C_ink \<and> lineWidth (cur (snd s)) = 1.5"
      obtain a0 c0 where s: "s = (a0, c0)" by (cases s)
      from a s have f: "strokeStyle (cur c0) = C_ink" "lineWidth (cur c0) = 1.5" by simp_all
      from hierarchy_child_eq[OF f, of cx jY cY x a0]
      show "hierarchy_child cx jY cY x s = step x s \<and>
          (strokeStyle (cur (snd (step x s))) = C_ink \<and> lineWidth (cur (snd (step x s))) = 1.5)"
        unfolding s step_def nxt_def g_def by metis
    qed
    then show ?thesis by blast
  qed
  have "(\<lambda>c. restore (snd (fold (hierarchy_child cx jY cY) xs
            (x0, exec [save, set_strokeStyle C_ink, set_lineWidth 1.5, beginPath,
                       moveTo mx my, lineTo lx ly, stroke] c)))) =
        (\<lambda>c. restore (h (save c)))"
  proof
    fix c
    have e: "exec [save, set_strokeStyle C_ink, set_lineWidth 1.5, beginPath,
                       moveTo mx my, lineTo lx ly, stroke] c = pre (save c)"
      by (simp add: pre_def exec_Cons)
    show "restore (snd (fold (hierarchy_child cx jY cY) xs
            (x0, exec [save, set_strokeStyle C_ink, set_lineWidth 1.5, beginPath,
                       moveTo mx my, lineTo lx ly, stroke] c))) = restore (h (save c))"
      unfolding e h_def using fo[of "(x0, pre (save c))"] ipre by simp
  qed
  then show ?thesis using good_bracket[OF gh sh] by simp
qed

lemma good_draw_hierarchy: "good (draw_hierarchy M labels areaTop cx)"
proof -
  have m: "measureText M (set_font labelFont c) = M labelFont" for c
    by (simp add: measureText_def[abs_def] set_font_def)
  have gB: "good (\<lambda>c. exec [save, set_strokeStyle C_red, set_lineWidth 2,
                     strokeRect x y w h,
                     set_fillStyle C_red, set_font labelFont, set_textAlign ''center'',
                     fillText r tx ty, set_textAlign ''start'',
                     restore] (set_font labelFont c))" for x y w h r tx ty
    by (simp add: good_def prims bare_def std_def)
  have gA: "good (\<lambda>c. set_font labelFont (exec [save, set_strokeStyle C_red, set_lineWidth 2,
                     strokeRect x y w h,
                     set_fillStyle C_red, set_font labelFont, set_textAlign ''center'',
                     fillText r tx ty, set_textAlign ''start'',
                     restore] (set_font labelFont c)))" for x y w h r tx ty
    by (simp add: good_def prims bare_def std_def)
  show ?thesis
    unfolding draw_hierarchy_def[abs_def] Let_def m
    apply (cases "tl labels = []")
     apply (simp only: if_True if_False simp_thms)
     apply (rule gB)
    apply (simp only: if_True if_False simp_thms)
    apply (rule good_comp[OF gA good_hierarchy_children])
    done
qed

lemma over_framework: "overpaints paper_fill (render_framework M d n)"
proof -
  define D where "D = (if parse_labels d \<noteq> [] then
       if or_else (field d ''diagram_type'') ''flow'' = ''flow''
       then draw_flow M (parse_labels d) (C_contentEnd - C_contentStart)
              (C_contentStart + (C_contentEnd - C_contentStart) / 2)
              (230 + ((if field d ''caption'' \<noteq> '''' then C_slide - 120 else C_slide - 80) - 230) / 2)
       else if or_else (field d ''diagram_type'') ''flow'' = ''quadrant''
       then draw_quadrant (parse_labels d) (C_contentEnd - C_contentStart)
              ((if field d ''caption'' \<noteq> '''' then C_slide - 120 else C_slide - 80) - 230)
              (C_contentStart + (C_contentEnd - C_contentStart) / 2)
              (230 + ((if field d ''caption'' \<noteq> '''' then C_slide - 120 else C_slide - 80) - 230) / 2)
       else if or_else (field d ''diagram_type'') ''flow'' = ''cycle''
       then draw_cycle M (parse_labels d) (C_contentEnd - C_contentStart)
              ((if field d ''caption'' \<noteq> '''' then C_slide - 120 else C_slide - 80) - 230)
              (C_contentStart + (C_contentEnd - C_contentStart) / 2)
              (230 + ((if field d ''caption'' \<noteq> '''' then C_slide - 120 else C_slide - 80) - 230) / 2)
       else if or_else (field d ''diagram_type'') ''flow'' = ''hierarchy''
       then draw_hierarchy M (parse_labels d) 230
              (C_contentStart + (C_contentEnd - C_contentStart) / 2)
       else (\<lambda>c. c)
     else (\<lambda>c. c))"
  define T where "T = (if field d ''caption'' \<noteq> ''''
       then exec [set_fillStyle C_callout, set_font ''500 24px 'Newsreader', Georgia, serif'',
                  fillText (field d ''caption'') C_contentStart (C_slide - 80)]
       else (\<lambda>c. c))"
  have gD: "good D"
    unfolding D_def
    by (simp add: good_id good_draw_flow good_draw_quadrant good_draw_cycle good_draw_hierarchy)
  have gT: "good T"
    unfolding T_def by (simp add: good_id good_fill_text)
  have gH: "overpaints paper_fill (framework_head d n)"
    by (cases n)
       (simp_all add: overpaints_def paper_fill_def framework_head_def[abs_def] good_def blocks
          prims bare_def std_def)
  have eq: "render_framework M d n = (\<lambda>c. T (D (framework_head d n c)))"
    by (rule ext) (simp add: render_framework_def framework_head_def Let_def D_def T_def)
  show ?thesis unfolding eq by (rule overpaints_comp[OF overpaints_comp[OF gH gD] gT])
qed

subsection \<open>Every renderer overwrites the surface\<close>

lemma renderers_overpaint:
  assumes "map_of renderers tmpl = Some r"
  shows "overpaints (background tmpl) (r M d n)"
  using assms
  by (auto simp: renderers_def background_def over_cover over_single over_comparison
      over_framework over_punchline over_data over_cta over_numbered_list over_quote
      over_section_divider over_two_up over_three_up over_checklist over_blank
      split: if_splits)

lemma full_fill:
  assumes "opaque_fills R solid" and "col = C_paper \<or> col = C_dark"
  shows "R (Fill_Rect col 1 0 0 C_slide C_slide) s = (\<lambda>p. solid col)"
proof (rule ext)
  fix p
  have "covers 0 0 C_slide C_slide p"
    using Rep_pixel[of p] by (auto simp: covers_def C_slide_def split: prod.splits)
  with assms show "R (Fill_Rect col 1 0 0 C_slide C_slide) s p = solid col"
    unfolding opaque_fills_def by blast
qed

lemma cover_bands_fill:
  assumes "opaque_fills R solid"
  shows "fold R cover_bands s =
     (\<lambda>p. if fst (Rep_pixel p) < 280 \<or> 800 \<le> fst (Rep_pixel p) then solid C_dark
           else solid C_paper)"
proof (rule ext)
  fix p
  obtain i j where ij: "Rep_pixel p = (i, j)" by (cases "Rep_pixel p")
  with Rep_pixel[of p] have b: "i < 1080" "j < 1080" by auto
  let ?b1 = "Fill_Rect C_dark 1 0 0 C_coverBandL C_slide"
  let ?b2 = "Fill_Rect C_paper 1 C_coverBandL 0 C_coverChannelW C_slide"
  let ?b3 = "Fill_Rect C_dark 1 C_coverBandR 0 (C_slide - C_coverBandR) C_slide"
  from assms have cov: "covers x y w h p \<Longrightarrow> R (Fill_Rect col 1 x y w h) t p = solid col"
    and mis: "misses x y w h p \<Longrightarrow> R (Fill_Rect col 1 x y w h) t p = t p"
    if "col = C_paper \<or> col = C_dark" for col x y w h t
    using that unfolding opaque_fills_def by blast+
  consider (left) "i < 280" | (mid) "280 \<le> i" "i < 800" | (right) "800 \<le> i" by linarith
  then have "R ?b3 (R ?b2 (R ?b1 s)) p =
     (if i < 280 \<or> 800 \<le> i then solid C_dark else solid C_paper)"
  proof cases
    case left
    then have "misses C_coverBandR 0 (C_slide - C_coverBandR) C_slide p"
      "misses C_coverBandL 0 C_coverChannelW C_slide p"
      "covers 0 0 C_coverBandL C_slide p"
      using b by (simp_all add: misses_def covers_def ij C_defs)
    then show ?thesis using left by (simp add: cov mis)
  next
    case mid
    then have "misses C_coverBandR 0 (C_slide - C_coverBandR) C_slide p"
      "covers C_coverBandL 0 C_coverChannelW C_slide p"
      using b by (simp_all add: misses_def covers_def ij C_defs)
    then show ?thesis using mid by (simp add: cov mis)
  next
    case right
    then have "covers C_coverBandR 0 (C_slide - C_coverBandR) C_slide p"
      using b by (simp_all add: misses_def covers_def ij C_defs)
    then show ?thesis using right by (simp add: cov)
  qed
  then show "fold R cover_bands s p =
     (if fst (Rep_pixel p) < 280 \<or> 800 \<le> fst (Rep_pixel p) then solid C_dark
      else solid C_paper)"
    by (simp add: cover_bands_def ij)
qed

lemma background_wipes:
  assumes "opaque_fills R solid"
  shows "fold R (background tmpl) s = fold R (background tmpl) s'"
  by (simp add: background_def paper_fill_def dark_fill_def full_fill[OF assms]
      cover_bands_fill[OF assms])

lemma overpaints_pixels:
  assumes o: "overpaints B f" and w: "\<And>s s'. fold R B s = fold R B s'"
    and s: "std (cur c)"
  shows "pixels R s0 (painted (f (f c))) = pixels R s0 (painted (f c))"
    and "bare c' = bare c \<Longrightarrow> pixels R s1 (painted (f c')) = pixels R s0 (painted (f c))"
    and "std (cur (f c))"
proof -
  from o have g: "good f" by (simp add: overpaints_def)
  from o s obtain rest where r: "painted (f (bare c)) = B @ rest"
    by (auto simp: overpaints_def)
  from g s have p1: "painted (f c) = painted c @ B @ rest" and n1: "bare (f c) = bare c"
    by (auto simp: good_def r)
  from n1 s show s1: "std (cur (f c))" using bare_eq_std by blast
  with g have "painted (f (f c)) = painted (f c) @ painted (f (bare (f c)))"
    by (auto simp: good_def)
  then have p2: "painted (f (f c)) = painted c @ B @ rest @ B @ rest"
    by (simp add: n1 r p1)
  have e: "fold R (B @ rest) t = fold R (B @ rest) t'" for t t'
    using w[of t t'] by simp
  show "pixels R s0 (painted (f (f c))) = pixels R s0 (painted (f c))"
    unfolding pixels_def p1 p2 using e[of "fold R (painted c @ B @ rest) s0" "fold R (painted c) s0"]
    by simp
  assume n: "bare c' = bare c"
  with s have "std (cur c')" using bare_eq_std by blast
  with g have "painted (f c') = painted c' @ B @ rest" by (auto simp: good_def n r)
  then show "pixels R s1 (painted (f c')) = pixels R s0 (painted (f c))"
    unfolding pixels_def p1 using e[of "fold R (painted c') s1" "fold R (painted c) s0"]
    by simp
qed

text \<open>
  Claim C9: for each of the 14 registered renderers, every field-value record and every
  slide number or none, on a context in the standard state (full alpha, text aligned at
  the start, letter spacing absent or zero: the state of a new or reset canvas, in which
  \<open>SlideCanvas\<close> and \<open>exportPDF\<close> call the renderers), and for every rasteriser whose
  opaque rectangle fills overwrite the cells they cover and leave the cells they miss:
  rendering twice in succession leaves the same pixels as rendering once; the pixels
  after a render are the same whatever the surface held before, whatever was painted on
  it before, and whatever path and saved states the context carried; and the renderer
  leaves the context in the standard state again.
\<close>

theorem render_idempotent:
  assumes "map_of renderers tmpl = Some r"
    and "opaque_fills R solid"
    and "std (cur c)"
  shows "pixels R s (painted (r M d n (r M d n c))) = pixels R s (painted (r M d n c))
       \<and> (\<forall>c' s'. cur c' = cur c \<longrightarrow>
            pixels R s' (painted (r M d n c')) = pixels R s (painted (r M d n c)))
       \<and> std (cur (r M d n c))
       \<and> std (cur (reset_canvas w h c0))"
proof -
  note o = renderers_overpaint[OF assms(1), of M d n]
  note w = background_wipes[OF assms(2), of tmpl]
  have n: "bare c' = bare c" if "cur c' = cur c" for c'
    using that by (simp add: bare_def)
  have "std (cur (reset_canvas w h c0))"
    by (cases "letterSpacing (cur c0)") (simp_all add: reset_canvas_def std_def)
  with overpaints_pixels[OF o w assms(3)] n show ?thesis by blast
qed

theorem render_idempotent_witness:
  "map_of renderers ''cta'' = Some render_cta
   \<and> opaque_fills flat_raster (\<lambda>col. col)
   \<and> std (cur test_canvas)
   \<and> pixels flat_raster (\<lambda>p. ''old'')
        (painted (render_cta fixed_pitch Map.empty None
                    (render_cta fixed_pitch Map.empty None test_canvas))) =
      pixels flat_raster (\<lambda>p. ''old'')
        (painted (render_cta fixed_pitch Map.empty None test_canvas))
   \<and> pixels flat_raster (\<lambda>p. ''other'')
        (painted (render_cta fixed_pitch Map.empty None
                    (test_canvas\<lparr>painted := [Fill_Rect C_red 1 0 0 10 10]\<rparr>))) =
      pixels flat_raster (\<lambda>p. ''old'')
        (painted (render_cta fixed_pitch Map.empty None test_canvas))
   \<and> pixels flat_raster (\<lambda>p. ''old'')
        (painted (render_cta fixed_pitch Map.empty None test_canvas)) (Abs_pixel (0, 0)) = C_dark
   \<and> pixels flat_raster (\<lambda>p. ''old'')
        (painted (render_cta fixed_pitch Map.empty None test_canvas)) (Abs_pixel (200, 469)) = C_red"
proof -
  have r: "map_of renderers ''cta'' = Some render_cta" by (simp add: renderers_def)
  have o: "opaque_fills flat_raster (\<lambda>col. col)"
    by (auto simp: opaque_fills_def flat_raster_def covers_def misses_def split: prod.splits)
  have s: "std (cur test_canvas)" by (simp add: std_def test_canvas_def)
  note th = render_idempotent[OF r o s, where s = "\<lambda>p. ''old''" and M = fixed_pitch
      and d = Map.empty and n = None]
  have a: "pixels flat_raster (\<lambda>p. ''old'')
        (painted (render_cta fixed_pitch Map.empty None
                    (render_cta fixed_pitch Map.empty None test_canvas))) =
      pixels flat_raster (\<lambda>p. ''old'')
        (painted (render_cta fixed_pitch Map.empty None test_canvas))"
    using th by blast
  have "cur (test_canvas\<lparr>painted := [Fill_Rect C_red 1 0 0 10 10]\<rparr>) = cur test_canvas"
    by simp
  with th have b: "pixels flat_raster (\<lambda>p. ''other'')
        (painted (render_cta fixed_pitch Map.empty None
                    (test_canvas\<lparr>painted := [Fill_Rect C_red 1 0 0 10 10]\<rparr>))) =
      pixels flat_raster (\<lambda>p. ''old'')
        (painted (render_cta fixed_pitch Map.empty None test_canvas))"
    by blast
  have p0: "Rep_pixel (Abs_pixel (0, 0)) = (0, 0)"
    and p1: "Rep_pixel (Abs_pixel (200, 469)) = (200, 469)"
    by (simp_all add: Abs_pixel_inverse)
  have pc: "painted (render_cta fixed_pitch Map.empty None test_canvas) =
     [Fill_Rect C_dark 1 0 0 1080 1080,
      Stroke_Path \<lparr>s_color = C_red, s_width = 2, s_alpha = 0.6, s_dash = [],
                   s_cap = ''butt'', s_join = ''miter''\<rparr> [MoveTo 144 0, LineTo 144 1080],
      Fill_Text \<lparr>t_color = C_paper, t_font = ''900 72px 'Inter Tight', sans-serif'',
                 t_alpha = 1, t_align = ''start'', t_spacing = Some ''0px''\<rparr>
        ''TIGHT MARGINS'' 176 440,
      Fill_Rect C_red 1 176 468 80 4,
      Fill_Text \<lparr>t_color = C_paper, t_font = ''600 40px 'Inter Tight', sans-serif'',
                 t_alpha = 1, t_align = ''start'', t_spacing = Some ''0px''\<rparr>
        ''Subscribe for more.'' 176 540,
      Fill_Text \<lparr>t_color = C_red, t_font = ''400 26px 'JetBrains Mono', monospace'',
                 t_alpha = 1, t_align = ''start'', t_spacing = Some ''0px''\<rparr>
        ''tightmargins.com'' 176 592]"
    by (simp add: render_cta_def drawMarginLine_def prims test_canvas_def field_def or_else_def
        C_slide_def C_marginLine_def C_contentStart_def)
  have c: "pixels flat_raster (\<lambda>p. ''old'')
        (painted (render_cta fixed_pitch Map.empty None test_canvas)) (Abs_pixel (0, 0)) = C_dark"
    unfolding pc by (simp add: pixels_def flat_raster_def covers_def p0)
  have d: "pixels flat_raster (\<lambda>p. ''old'')
        (painted (render_cta fixed_pitch Map.empty None test_canvas)) (Abs_pixel (200, 469)) = C_red"
    unfolding pc by (simp add: pixels_def flat_raster_def covers_def p1)
  from r o s a b c d show ?thesis by blast
qed

end
